theory Spec2Isabelle
  imports
    Main
    "HOL-Library.Multiset"
    "HOL-Library.Char_ord"
    "HOL-Library.List_Lexorder"
begin

section \<open>Data model\<close>

text \<open>
  Identity tuples of the Kubernetes API machinery: \<open>schema.GroupVersionKind\<close> and
  \<open>metav1.GroupKind\<close>. Both are plain structs of strings and are used as map keys.
\<close>

record GroupVersionKind =
  gvkGroup :: string
  gvkVersion :: string
  gvkKind :: string

record GroupKind =
  gkGroup :: string
  gkKind :: string

text \<open>
  The canonical string forms, as the API machinery library prints them:
  \<open>Group + "/" + Version + ", Kind=" + Kind\<close> for a GroupVersionKind, and for a GroupKind
  \<open>Kind\<close> alone when the group is empty, \<open>Kind + "." + Group\<close> otherwise.
  Go compares strings bytewise, which is the lexicographic order on \<open>char list\<close>.
\<close>

definition gvk_String :: "GroupVersionKind \<Rightarrow> string" where
  "gvk_String gvk = gvkGroup gvk @ ''/'' @ gvkVersion gvk @ '', Kind='' @ gvkKind gvk"

definition gk_String :: "GroupKind \<Rightarrow> string" where
  "gk_String gk = (if length (gkGroup gk) = 0 then gkKind gk else gkKind gk @ ''.'' @ gkGroup gk)"

text \<open>
  The nested field tree of a manifest object (\<open>map[string]interface{}\<close>). Besides the JSON
  shapes, the tree can hold the Go values that \<open>SetNestedFieldNoCopy\<close> stores uncopied:
  a label selector (its \<open>MatchLabels\<close> map) and a slice of kinds.
\<close>

datatype val =
    VNull
  | VBool bool
  | VNum int
  | VString string
  | VList "val list"
  | VMap "string \<Rightarrow> val option"
  | VLabelSelector "string \<Rightarrow> string option"
  | VGroupVersionKinds "GroupVersionKind list"
  | VGroupKinds "GroupKind list"

type_synonym fields = "string \<Rightarrow> val option"

text \<open>
  Modelled from the spec: the manifest object and the object set of package \<open>manifest\<close>,
  whose declarations are not part of the sources at hand. An object has group, version,
  kind, namespace, name and a nested field tree; an object set is the ordered sequence
  \<open>Items\<close> in manifest document order.
\<close>

record Object =
  Group :: string
  Version :: string
  Kind :: string
  Namespace :: string
  Name :: string
  object :: fields

record Objects =
  Items :: "Object list"

definition obj_GroupVersionKind :: "Object \<Rightarrow> GroupVersionKind" where
  "obj_GroupVersionKind o' = \<lparr>gvkGroup = Group o', gvkVersion = Version o', gvkKind = Kind o'\<rparr>"

definition obj_GroupKind :: "Object \<Rightarrow> GroupKind" where
  "obj_GroupKind o' = \<lparr>gkGroup = Group o', gkKind = Kind o'\<rparr>"

text \<open>
  Modelled from the spec: the owner (\<open>DeclarativeObject\<close>) with its identity, and the
  addon interface \<open>CommonObject\<close> with the declared version of its common spec and the
  health flag of its common status. An owner whose dynamic type does not implement
  \<open>CommonObject\<close> has \<open>asCommonObject = None\<close>.
\<close>

record CommonSpec =
  specVersion :: string

record CommonStatus =
  Healthy :: bool

record CommonObject =
  CommonSpec :: CommonSpec
  GetCommonStatus :: CommonStatus

record DeclarativeObject =
  GetName :: string
  GetNamespace :: string
  asCommonObject :: "CommonObject option"

type_synonym LabelMaker = "DeclarativeObject \<Rightarrow> (string \<Rightarrow> string option)"

record ObjectMeta =
  metaName :: string
  metaNamespace :: string

record ListOptions =
  LabelSelector :: string

datatype error =
    AddWatchError string
  | NotCommonObject
  | EmptyFieldPath
  | FieldNotMap
  | FieldNotString
  | ErrorReadingContainers error
  | ErrorReadingPodSpec error
  | ContainersNotFound
  | ContainersNotList
  | ContainerNotObject
  | PodSpecNotFound
  | PodSpecNotObject
  | ErrorReadingContainerImage error
  | ErrorApplyingPrivateRegistry error
  | ErrorApplyingPullImageSecret error
  | ErrorApplyingImagePullSecret error

section \<open>Go runtime and library behaviour used by the code\<close>

text \<open>
  A Go map used as a set of keys is modelled by the list of its distinct keys, in the order
  of their first insertion. \<open>range\<close> over a map visits every key once, in an order the
  language leaves unspecified and the runtime randomises; the order is a parameter
  \<open>rng\<close> of every function that ranges over a map, and \<open>range_order_ok\<close> says that it
  is a rearrangement of the keys.
\<close>

definition map_put :: "'k \<Rightarrow> 'k list \<Rightarrow> 'k list" where
  "map_put k m = (if k \<in> set m then m else m @ [k])"

definition range_order_ok :: "('k list \<Rightarrow> 'k list) \<Rightarrow> bool" where
  "range_order_ok rng \<longleftrightarrow> (\<forall>ks. mset (rng ks) = mset ks)"

text \<open>
  \<open>sort.Slice(x, less)\<close>: the comparison receives two indices and reads the slice as it is
  at that moment. The library promises no stability; on short slices it runs this insertion
  sort, which moves an element left while \<open>less j (j - 1)\<close> holds.
\<close>

definition swap :: "'a list \<Rightarrow> nat \<Rightarrow> nat \<Rightarrow> 'a list" where
  "swap xs i j = xs[i := xs ! j, j := xs ! i]"

fun sift_left :: "('a list \<Rightarrow> nat \<Rightarrow> nat \<Rightarrow> bool) \<Rightarrow> 'a list \<Rightarrow> nat \<Rightarrow> 'a list" where
  "sift_left lessf xs 0 = xs"
| "sift_left lessf xs (Suc j) =
     (if lessf xs (Suc j) j then sift_left lessf (swap xs (Suc j) j) j else xs)"

fun insertionSort :: "('a list \<Rightarrow> nat \<Rightarrow> nat \<Rightarrow> bool) \<Rightarrow> 'a list \<Rightarrow> nat \<Rightarrow> nat \<Rightarrow> 'a list" where
  "insertionSort lessf xs i 0 = xs"
| "insertionSort lessf xs i (Suc n) = insertionSort lessf (sift_left lessf xs i) (Suc i) n"

definition sort_Slice :: "('a list \<Rightarrow> nat \<Rightarrow> nat \<Rightarrow> bool) \<Rightarrow> 'a list \<Rightarrow> 'a list" where
  "sort_Slice lessf xs = insertionSort lessf xs 1 (length xs - 1)"

section \<open>Unique kinds of an object set\<close>

text \<open>
  \<open>uniqueGroupVersionKind\<close>: collect the kinds of all items as keys of a map, append the
  keys to a slice while ranging over the map, and sort the slice. The comparison is written
  as in the source: both sides read \<open>unique[i]\<close>.
\<close>

definition uniqueGroupVersionKind ::
  "(GroupVersionKind list \<Rightarrow> GroupVersionKind list) \<Rightarrow> Objects \<Rightarrow> GroupVersionKind list" where
  "uniqueGroupVersionKind rng objects =
     (let kinds = fold (\<lambda>o' m. map_put (obj_GroupVersionKind o') m) (Items objects) [];
          unique = fold (\<lambda>gvk u. u @ [gvk]) (rng kinds) []
      in sort_Slice (\<lambda>u i j. gvk_String (u ! i) < gvk_String (u ! i)) unique)"

definition uniqueGroupKind ::
  "(GroupKind list \<Rightarrow> GroupKind list) \<Rightarrow> Objects \<Rightarrow> GroupKind list" where
  "uniqueGroupKind rng objects =
     (let kinds = fold (\<lambda>o' m. let gk = obj_GroupKind o'
                                in map_put \<lparr>gkGroup = gkGroup gk, gkKind = gkKind gk\<rparr> m)
                       (Items objects) [];
          unique = fold (\<lambda>gk u. u @ [gk]) (rng kinds) []
      in sort_Slice (\<lambda>u i j. gk_String (u ! i) < gk_String (u ! i)) unique)"

section \<open>The watch registry\<close>

text \<open>
  \<open>watchAll\<close> holds the external dynamic watch and the set of kinds already registered.
  The dynamic watch is outside the code: it is a state of some type \<open>'d\<close>, and its method
  \<open>Add\<close> takes that state and the three arguments and gives the error it returns, if any,
  and the state afterwards. \<open>Notify\<close> returns its error result, the registry afterwards,
  and the calls to \<open>Add\<close> it made, in order, each with its arguments and what it
  returned. Logging is left out.
\<close>

type_synonym 'd DynamicWatch_Add =
  "'d \<Rightarrow> GroupVersionKind \<Rightarrow> ListOptions \<Rightarrow> ObjectMeta \<Rightarrow> error option \<times> 'd"

record 'd watchAll =
  dw :: 'd
  registered :: "GroupVersionKind set"

record add_call =
  callTrigger :: GroupVersionKind
  callOptions :: ListOptions
  callTarget :: ObjectMeta
  callResult :: "error option"

fun notify_loop ::
  "'d DynamicWatch_Add \<Rightarrow> ListOptions \<Rightarrow> ObjectMeta \<Rightarrow> GroupVersionKind list
     \<Rightarrow> 'd watchAll \<times> add_call list \<Rightarrow> 'd watchAll \<times> add_call list" where
  "notify_loop Add filter' notify [] (w, calls) = (w, calls)"
| "notify_loop Add filter' notify (gvk # gvks) (w, calls) =
     (if gvk \<in> registered w then notify_loop Add filter' notify gvks (w, calls)
      else (case Add (dw w) gvk filter' notify of
              (Some err, d') \<Rightarrow>
                notify_loop Add filter' notify gvks
                  (w\<lparr>dw := d'\<rparr>, calls @ [\<lparr>callTrigger = gvk, callOptions = filter', callTarget = notify,
                                  callResult = Some err\<rparr>])
            | (None, d') \<Rightarrow>
                notify_loop Add filter' notify gvks
                  (w\<lparr>dw := d', registered := insert gvk (registered w)\<rparr>,
                   calls @ [\<lparr>callTrigger = gvk, callOptions = filter', callTarget = notify,
                             callResult = None\<rparr>])))"

definition Notify ::
  "'d DynamicWatch_Add \<Rightarrow> (GroupVersionKind list \<Rightarrow> GroupVersionKind list) \<Rightarrow> 'd watchAll
     \<Rightarrow> DeclarativeObject \<Rightarrow> Objects \<Rightarrow> error option \<times> 'd watchAll \<times> add_call list" where
  "Notify Add rng w dest objs =
     (let labelSelector = [];
          notify = \<lparr>metaName = GetName dest, metaNamespace = GetNamespace dest\<rparr>;
          filter' = \<lparr>LabelSelector = labelSelector\<rparr>;
          (w', calls) = notify_loop Add filter' notify (uniqueGroupVersionKind rng objs) (w, [])
      in (None, w', calls))"

section \<open>Nested field access\<close>

text \<open>
  The accessors of the API machinery's \<open>unstructured\<close> package. \<open>NestedFieldNoCopy\<close> walks
  a path: a missing key (or a nil value on the way) is "not found", a value on the way that
  is not a map is an error. \<open>NestedString\<close> also wants the value found to be a string.
\<close>

fun NestedFieldNoCopy :: "val \<Rightarrow> string list \<Rightarrow> error + val option" where
  "NestedFieldNoCopy v [] = Inr (Some v)"
| "NestedFieldNoCopy v (field # rest) =
     (case v of
        VNull \<Rightarrow> Inr None
      | VMap m \<Rightarrow> (case m field of None \<Rightarrow> Inr None | Some v' \<Rightarrow> NestedFieldNoCopy v' rest)
      | _ \<Rightarrow> Inl FieldNotMap)"

definition NestedString :: "fields \<Rightarrow> string list \<Rightarrow> error + (string \<times> bool)" where
  "NestedString obj path =
     (case NestedFieldNoCopy (VMap obj) path of
        Inl err \<Rightarrow> Inl err
      | Inr None \<Rightarrow> Inr ([], False)
      | Inr (Some (VString s)) \<Rightarrow> Inr (s, True)
      | Inr (Some _) \<Rightarrow> Inl FieldNotString)"

text \<open>
  \<open>SetNestedField\<close> descends through the maps on the path, creating the missing ones, and
  stores the value under the last key. It fails when a value on the way exists and is not a
  map; that can only happen before the first map is created, so a failing call leaves the
  tree as it was. The Go function slices \<open>fields[:len(fields)-1]\<close> and panics on an empty
  path, which no caller here passes.
\<close>

fun setNestedField :: "fields \<Rightarrow> val \<Rightarrow> string list \<Rightarrow> error + fields" where
  "setNestedField m v [] = Inl EmptyFieldPath"
| "setNestedField m v [field] = Inr (m(field \<mapsto> v))"
| "setNestedField m v (field # next # rest) =
     (case m field of
        Some (VMap sub) \<Rightarrow>
          (case setNestedField sub v (next # rest) of
             Inl err \<Rightarrow> Inl err
           | Inr sub' \<Rightarrow> Inr (m(field \<mapsto> VMap sub')))
      | Some _ \<Rightarrow> Inl FieldNotMap
      | None \<Rightarrow>
          (case setNestedField Map.empty v (next # rest) of
             Inl err \<Rightarrow> Inl err
           | Inr sub' \<Rightarrow> Inr (m(field \<mapsto> VMap sub'))))"

definition SetNestedSlice :: "fields \<Rightarrow> val list \<Rightarrow> string list \<Rightarrow> error + fields" where
  "SetNestedSlice obj v path = setNestedField obj (VList v) path"

text \<open>
  Modelled from the spec: the accessors of a manifest object, whose code is not part of the
  sources at hand. \<open>SetNestedField\<close> and \<open>SetNestedFieldNoCopy\<close> set a value by path and
  fail closed; \<open>MutateContainers\<close> applies a function to every container of the pod template
  (\<open>spec.template.spec.containers\<close>), \<open>MutatePodSpec\<close> to the pod template's spec
  (\<open>spec.template.spec\<close>). Each returns its error, if any, and the object afterwards.
\<close>

definition SetNestedField :: "Object \<Rightarrow> val \<Rightarrow> string list \<Rightarrow> error option \<times> Object" where
  "SetNestedField o' v path =
     (case setNestedField (object o') v path of
        Inl err \<Rightarrow> (Some err, o')
      | Inr m \<Rightarrow> (None, o'\<lparr>object := m\<rparr>))"

definition SetNestedFieldNoCopy :: "Object \<Rightarrow> val \<Rightarrow> string list \<Rightarrow> error option \<times> Object" where
  "SetNestedFieldNoCopy o' v path =
     (case setNestedField (object o') v path of
        Inl err \<Rightarrow> (Some err, o')
      | Inr m \<Rightarrow> (None, o'\<lparr>object := m\<rparr>))"

definition store_at :: "Object \<Rightarrow> val \<Rightarrow> string list \<Rightarrow> Object" where
  "store_at o' v path =
     (case setNestedField (object o') v path of Inl err \<Rightarrow> o' | Inr m \<Rightarrow> o'\<lparr>object := m\<rparr>)"

fun mutate_each :: "(fields \<Rightarrow> error + fields) \<Rightarrow> val list \<Rightarrow> error option \<times> val list" where
  "mutate_each fn [] = (None, [])"
| "mutate_each fn (co # cos) =
     (case co of
        VMap container \<Rightarrow>
          (case fn container of
             Inl err \<Rightarrow> (Some err, co # cos)
           | Inr container' \<Rightarrow>
               (let (err, cos') = mutate_each fn cos in (err, VMap container' # cos')))
      | _ \<Rightarrow> (Some ContainerNotObject, co # cos))"

definition MutateContainers :: "Object \<Rightarrow> (fields \<Rightarrow> error + fields) \<Rightarrow> error option \<times> Object" where
  "MutateContainers o' fn =
     (case NestedFieldNoCopy (VMap (object o')) [''spec'', ''template'', ''spec'', ''containers''] of
        Inl err \<Rightarrow> (Some (ErrorReadingContainers err), o')
      | Inr None \<Rightarrow> (Some ContainersNotFound, o')
      | Inr (Some (VList containerList)) \<Rightarrow>
          (let (err, containerList') = mutate_each fn containerList
           in (err, store_at o' (VList containerList')
                      [''spec'', ''template'', ''spec'', ''containers'']))
      | Inr (Some _) \<Rightarrow> (Some ContainersNotList, o'))"

definition MutatePodSpec :: "Object \<Rightarrow> (fields \<Rightarrow> error + fields) \<Rightarrow> error option \<times> Object" where
  "MutatePodSpec o' fn =
     (case NestedFieldNoCopy (VMap (object o')) [''spec'', ''template'', ''spec''] of
        Inl err \<Rightarrow> (Some (ErrorReadingPodSpec err), o')
      | Inr None \<Rightarrow> (Some PodSpecNotFound, o')
      | Inr (Some (VMap podSpec)) \<Rightarrow>
          (case fn podSpec of
             Inl err \<Rightarrow> (Some err, o')
           | Inr podSpec' \<Rightarrow> (None, store_at o' (VMap podSpec') [''spec'', ''template'', ''spec'']))
      | Inr (Some _) \<Rightarrow> (Some PodSpecNotObject, o'))"

section \<open>Image registry and pull secret\<close>

text \<open>
  \<open>strings.Split(s, "/")\<close> for a one-character separator: the pieces between the
  separators, always at least one piece.
\<close>

fun strings_Split :: "string \<Rightarrow> char \<Rightarrow> string list" where
  "strings_Split [] sep = [[]]"
| "strings_Split (c # cs) sep =
     (let parts = strings_Split cs sep
      in if c = sep then [] # parts else (c # hd parts) # tl parts)"

definition applyImagePullSecret :: "string \<Rightarrow> fields \<Rightarrow> error + fields" where
  "applyImagePullSecret secret podSpec =
     (let imagePullSecret = VMap [''name'' \<mapsto> VString secret]
      in case SetNestedSlice podSpec [imagePullSecret] [''imagePullSecrets''] of
           Inl err \<Rightarrow> Inl (ErrorApplyingPullImageSecret err)
         | Inr podSpec' \<Rightarrow> Inr podSpec')"

definition applyPrivateRegistryToContainer :: "string \<Rightarrow> fields \<Rightarrow> error + fields" where
  "applyPrivateRegistryToContainer registry container =
     (case NestedString container [''image''] of
        Inl err \<Rightarrow> Inl (ErrorReadingContainerImage err)
      | Inr (image', found) \<Rightarrow>
          (let parts = strings_Split image' CHR ''/'';
               imageName = parts ! (length parts - 1)
           in Inr (container(''image'' \<mapsto> VString (registry @ ''/'' @ imageName)))))"

definition is_workload :: "Object \<Rightarrow> bool" where
  "is_workload manifestItem \<longleftrightarrow>
     Kind manifestItem = ''Deployment'' \<or> Kind manifestItem = ''DaemonSet'' \<or>
     Kind manifestItem = ''StatefulSet'' \<or> Kind manifestItem = ''Job'' \<or>
     Kind manifestItem = ''CronJob''"

text \<open>
  \<open>applyImageRegistry\<close>: the body of the loop for one item, the loop, which stops at the
  first error and leaves the items it has not reached as they are, and the function itself.
\<close>

definition applyImageRegistry_item :: "string \<Rightarrow> string \<Rightarrow> Object \<Rightarrow> error option \<times> Object" where
  "applyImageRegistry_item registry secret manifestItem =
     (if is_workload manifestItem then
        (let (err1, item1) =
               (if registry \<noteq> []
                then MutateContainers manifestItem (applyPrivateRegistryToContainer registry)
                else (None, manifestItem))
         in case err1 of
              Some err \<Rightarrow> (Some (ErrorApplyingPrivateRegistry err), item1)
            | None \<Rightarrow>
                (let (err2, item2) =
                       (if secret \<noteq> []
                        then MutatePodSpec item1 (applyImagePullSecret secret)
                        else (None, item1))
                 in case err2 of
                      Some err \<Rightarrow> (Some (ErrorApplyingImagePullSecret err), item2)
                    | None \<Rightarrow> (None, item2)))
      else (None, manifestItem))"

fun applyImageRegistry_items :: "string \<Rightarrow> string \<Rightarrow> Object list \<Rightarrow> error option \<times> Object list" where
  "applyImageRegistry_items registry secret [] = (None, [])"
| "applyImageRegistry_items registry secret (manifestItem # items) =
     (case applyImageRegistry_item registry secret manifestItem of
        (Some err, item') \<Rightarrow> (Some err, item' # items)
      | (None, item') \<Rightarrow>
          (let (err', items') = applyImageRegistry_items registry secret items
           in (err', item' # items')))"

definition applyImageRegistry ::
  "DeclarativeObject \<Rightarrow> Objects \<Rightarrow> string \<Rightarrow> string \<Rightarrow> error option \<times> Objects" where
  "applyImageRegistry operatorObject manifest registry secret =
     (if registry = [] \<and> secret = [] then (None, manifest)
      else (let (err, items') = applyImageRegistry_items registry secret (Items manifest)
            in (err, manifest\<lparr>Items := items'\<rparr>)))"

definition withImageRegistryTransform ::
  "string \<Rightarrow> string \<Rightarrow> DeclarativeObject \<Rightarrow> Objects \<Rightarrow> error option \<times> Objects" where
  "withImageRegistryTransform privateRegistry imagePullSecret o' m =
     applyImageRegistry o' m privateRegistry imagePullSecret"

section \<open>Application sync\<close>

text \<open>
  Both application transforms start with the same loop: find the one object of group
  \<open>app.k8s.io\<close> and kind \<open>Application\<close>, and give up as soon as a second one shows up.
  The pointer \<open>app\<close> is the position of the object in \<open>Items\<close>.
\<close>

datatype app_search = Multiple | Located "nat option"

fun locateApplication :: "Object list \<Rightarrow> nat \<Rightarrow> nat option \<Rightarrow> app_search" where
  "locateApplication [] i app = Located app"
| "locateApplication (o' # os) i app =
     (if Group o' = ''app.k8s.io'' \<and> Kind o' = ''Application''
      then (if app \<noteq> None then Multiple else locateApplication os (Suc i) (Some i))
      else locateApplication os (Suc i) app)"

definition transformApplication ::
  "(GroupVersionKind list \<Rightarrow> GroupVersionKind list) \<Rightarrow> DeclarativeObject \<Rightarrow> Objects \<Rightarrow> LabelMaker
     \<Rightarrow> error option \<times> Objects" where
  "transformApplication rng instance objects labelMaker =
     (case locateApplication (Items objects) 0 None of
        Multiple \<Rightarrow> (None, objects)
      | Located None \<Rightarrow> (None, objects)
      | Located (Some i) \<Rightarrow>
          (let app = Items objects ! i;
               (err1, app1) = SetNestedFieldNoCopy app (VLabelSelector (labelMaker instance))
                                [''spec'', ''selector''];
               objects1 = objects\<lparr>Items := (Items objects)[i := app1]\<rparr>;
               (err2, app2) = SetNestedFieldNoCopy app1
                                (VGroupVersionKinds (uniqueGroupVersionKind rng objects1))
                                [''spec'', ''componentGroupKinds'']
           in (None, objects\<lparr>Items := (Items objects)[i := app2]\<rparr>)))"

definition Pending :: string where
  "Pending = ''Pending''"

definition Succeeded :: string where
  "Succeeded = ''Succeeded''"

definition Failed :: string where
  "Failed = ''Failed''"

definition TransformApplicationFromStatus ::
  "DeclarativeObject \<Rightarrow> Objects \<Rightarrow> error option \<times> Objects" where
  "TransformApplicationFromStatus instance objects =
     (case asCommonObject instance of
        None \<Rightarrow> (Some NotCommonObject, objects)
      | Some addonObject \<Rightarrow>
          (case locateApplication (Items objects) 0 None of
             Multiple \<Rightarrow> (None, objects)
           | Located None \<Rightarrow> (None, objects)
           | Located (Some i) \<Rightarrow>
               (let app = Items objects ! i;
                    assemblyPhase = (if Healthy (GetCommonStatus addonObject)
                                     then Succeeded else Pending);
                    (err1, app1) = SetNestedField app
                                     (VString (specVersion (CommonSpec addonObject)))
                                     [''spec'', ''descriptor'', ''version''];
                    (err2, app2) = SetNestedField app1 (VString assemblyPhase)
                                     [''spec'', ''assemblyPhase'']
                in (None, objects\<lparr>Items := (Items objects)[i := app2]\<rparr>))))"

text \<open>
  The condition both loops test, as a predicate on an object. The number of Application
  objects of a set is \<open>length (filter is_application (Items objects))\<close>.
\<close>

definition is_application :: "Object \<Rightarrow> bool" where
  "is_application o' \<longleftrightarrow> Group o' = ''app.k8s.io'' \<and> Kind o' = ''Application''"

text \<open>
  A path can be written to when no value on the way to its last key exists as something
  other than a map: for \<open>spec.assemblyPhase\<close>, when \<open>spec\<close> is absent or a map.
\<close>

fun settable :: "fields \<Rightarrow> string list \<Rightarrow> bool" where
  "settable m [] = False"
| "settable m [field] = True"
| "settable m (field # next # rest) =
     (case m field of
        None \<Rightarrow> True
      | Some (VMap sub) \<Rightarrow> settable sub (next # rest)
      | Some _ \<Rightarrow> False)"

section \<open>Running the transforms and the registry\<close>

text \<open>
  Modelled from the spec: the object-level stage of the pipeline, whose code is not part of
  the sources at hand. The configured transforms run in registration order against the whole
  object set, and the first error stops the stage. \<open>builtinObjectTransforms\<close> is the list
  the options \<open>withImageRegistryTransform\<close>, \<open>WithManagedApplication\<close> and
  \<open>WithObjectTransform(TransformApplicationFromStatus)\<close> register, for one run in which
  the map of kinds is ranged over in the order \<open>rng\<close>.
\<close>

type_synonym ObjectTransform = "DeclarativeObject \<Rightarrow> Objects \<Rightarrow> error option \<times> Objects"

fun applyObjectTransforms ::
  "ObjectTransform list \<Rightarrow> DeclarativeObject \<Rightarrow> Objects \<Rightarrow> error option \<times> Objects" where
  "applyObjectTransforms [] instance objects = (None, objects)"
| "applyObjectTransforms (t # ts) instance objects =
     (case t instance objects of
        (Some err, objects') \<Rightarrow> (Some err, objects')
      | (None, objects') \<Rightarrow> applyObjectTransforms ts instance objects')"

definition builtinObjectTransforms ::
  "(GroupVersionKind list \<Rightarrow> GroupVersionKind list) \<Rightarrow> string \<Rightarrow> string \<Rightarrow> LabelMaker
     \<Rightarrow> ObjectTransform list" where
  "builtinObjectTransforms rng registry secret labelMaker =
     [withImageRegistryTransform registry secret,
      (\<lambda>instance objects. transformApplication rng instance objects labelMaker),
      TransformApplicationFromStatus]"

text \<open>
  A sequence of \<open>Notify\<close> invocations on one registry. Each tick brings the \<open>Add\<close> of the
  external watch as it behaves during that tick, the order in which the map of kinds is
  ranged over, the owner and the object set. \<open>notifications\<close> gives the registry after the
  last tick and all calls to \<open>Add\<close>, in order.
\<close>

type_synonym 'd tick =
  "'d DynamicWatch_Add \<times> (GroupVersionKind list \<Rightarrow> GroupVersionKind list) \<times> DeclarativeObject
     \<times> Objects"

fun notifications :: "'d watchAll \<Rightarrow> 'd tick list \<Rightarrow> 'd watchAll \<times> add_call list" where
  "notifications w [] = (w, [])"
| "notifications w ((Add, rng, dest, objs) # ticks) =
     (case Notify Add rng w dest objs of
        (err, w', calls) \<Rightarrow>
          (let (w'', calls') = notifications w' ticks in (w'', calls @ calls')))"

section \<open>Example objects\<close>

definition deployment_gvk :: GroupVersionKind where
  "deployment_gvk = \<lparr>gvkGroup = ''apps'', gvkVersion = ''v1'', gvkKind = ''Deployment''\<rparr>"

definition service_gvk :: GroupVersionKind where
  "service_gvk = \<lparr>gvkGroup = [], gvkVersion = ''v1'', gvkKind = ''Service''\<rparr>"

definition application_gvk :: GroupVersionKind where
  "application_gvk =
     \<lparr>gvkGroup = ''app.k8s.io'', gvkVersion = ''v1beta1'', gvkKind = ''Application''\<rparr>"

definition application_gk :: GroupKind where
  "application_gk = \<lparr>gkGroup = ''app.k8s.io'', gkKind = ''Application''\<rparr>"

definition service_gk :: GroupKind where
  "service_gk = \<lparr>gkGroup = [], gkKind = ''Service''\<rparr>"

definition bare_object :: "GroupVersionKind \<Rightarrow> string \<Rightarrow> Object" where
  "bare_object gvk name =
     \<lparr>Group = gvkGroup gvk, Version = gvkVersion gvk, Kind = gvkKind gvk,
      Namespace = ''kube-system'', Name = name, object = Map.empty\<rparr>"

definition example_owner :: DeclarativeObject where
  "example_owner =
     \<lparr>GetName = ''dashboard'', GetNamespace = ''kube-system'', asCommonObject = None\<rparr>"

definition healthy_owner :: DeclarativeObject where
  "healthy_owner =
     \<lparr>GetName = ''dashboard'', GetNamespace = ''kube-system'',
      asCommonObject = Some \<lparr>CommonSpec = \<lparr>specVersion = ''1.8.3''\<rparr>,
                             GetCommonStatus = \<lparr>Healthy = True\<rparr>\<rparr>\<rparr>"

definition example_labels :: LabelMaker where
  "example_labels instance = [''example-app'' \<mapsto> GetName instance]"

definition example_objects :: Objects where
  "example_objects =
     \<lparr>Items = [bare_object deployment_gvk ''web'', bare_object service_gvk ''web'',
               bare_object deployment_gvk ''worker'', bare_object application_gvk ''app'']\<rparr>"

definition app_and_service :: Objects where
  "app_and_service =
     \<lparr>Items = [bare_object application_gvk ''app'', bare_object service_gvk ''web'']\<rparr>"

definition two_applications :: Objects where
  "two_applications =
     \<lparr>Items = [bare_object application_gvk ''app'', bare_object service_gvk ''web'',
               bare_object application_gvk ''other'']\<rparr>"

definition scalar_spec_application :: Objects where
  "scalar_spec_application =
     \<lparr>Items = [(bare_object application_gvk ''app'')
                 \<lparr>object := [''spec'' \<mapsto> VString ''none'']\<rparr>]\<rparr>"

definition example_container :: fields where
  "example_container =
     [''name'' \<mapsto> VString ''bar'', ''image'' \<mapsto> VString ''myrepo/foo/bar:v1'']"

definition example_deployment :: Object where
  "example_deployment =
     (bare_object deployment_gvk ''web'')
       \<lparr>object := [''spec'' \<mapsto> VMap [''template'' \<mapsto> VMap [''spec'' \<mapsto>
                     VMap [''containers'' \<mapsto> VList [VMap example_container]]]]]\<rparr>"

text \<open>
  An external watch that counts the calls to \<open>Add\<close> and refuses the first one.
\<close>

definition flaky_Add :: "nat DynamicWatch_Add" where
  "flaky_Add n gvk opts target =
     (if n = 0 then (Some (AddWatchError ''refused''), Suc n) else (None, Suc n))"

definition example_registry :: "nat watchAll" where
  "example_registry = \<lparr>dw = 0, registered = {deployment_gvk}\<rparr>"

definition example_ticks :: "nat tick list" where
  "example_ticks =
     [(flaky_Add, (\<lambda>ks. ks), example_owner, example_objects),
      (flaky_Add, rev, example_owner, \<lparr>Items = [bare_object service_gvk ''web'']\<rparr>)]"

text \<open>
  An external watch without state that accepts every call, and four ticks on behalf of one
  owner whose object sets hold a Deployment, a Service, a Deployment again, and an
  Application.
\<close>

definition accepting_Add :: "unit DynamicWatch_Add" where
  "accepting_Add d gvk opts target = (None, d)"

definition four_ticks :: "unit tick list" where
  "four_ticks =
     [(accepting_Add, (\<lambda>ks. ks), example_owner, \<lparr>Items = [bare_object deployment_gvk ''web'']\<rparr>),
      (accepting_Add, (\<lambda>ks. ks), example_owner, \<lparr>Items = [bare_object service_gvk ''web'']\<rparr>),
      (accepting_Add, (\<lambda>ks. ks), example_owner, \<lparr>Items = [bare_object deployment_gvk ''worker'']\<rparr>),
      (accepting_Add, (\<lambda>ks. ks), example_owner, \<lparr>Items = [bare_object application_gvk ''app'']\<rparr>)]"

section \<open>The sort and the unique kinds\<close>

text \<open>
  The sort does order a slice when the comparison reads both indices: with
  \<open>unique[i].String() < unique[j].String()\<close> the two kinds below change places.
\<close>

lemma sort_Slice_both_indices_example:
  "sort_Slice (\<lambda>u i j. gvk_String (u ! i) < gvk_String (u ! j)) [application_gvk, service_gvk] =
     [service_gvk, application_gvk]"
  by (simp add: sort_Slice_def swap_def gvk_String_def application_gvk_def service_gvk_def)

text \<open>
  A comparison that never holds moves nothing, so the slice comes back in the order in which
  the map was ranged over.
\<close>

lemma sift_left_never_less:
  "(\<And>u i j. \<not> lessf u i j) \<Longrightarrow> sift_left lessf xs j = xs"
  by (cases j) simp_all

lemma insertionSort_never_less:
  "(\<And>u i j. \<not> lessf u i j) \<Longrightarrow> insertionSort lessf xs i n = xs"
  by (induction n arbitrary: xs i) (simp_all add: sift_left_never_less)

lemma sort_Slice_never_less:
  "(\<And>u i j. \<not> lessf u i j) \<Longrightarrow> sort_Slice lessf xs = xs"
  by (simp add: sort_Slice_def insertionSort_never_less)

lemma fold_append_one: "fold (\<lambda>x u. u @ [x]) xs acc = acc @ xs"
  by (induction xs arbitrary: acc) simp_all

lemma distinct_map_put: "distinct m \<Longrightarrow> distinct (map_put k m)"
  by (simp add: map_put_def)

lemma set_map_put: "set (map_put k m) = insert k (set m)"
  by (auto simp: map_put_def)

lemma distinct_fold_map_put:
  "distinct m \<Longrightarrow> distinct (fold (\<lambda>x m. map_put (f x) m) xs m)"
  by (induction xs arbitrary: m) (simp_all add: distinct_map_put)

lemma set_fold_map_put:
  "set (fold (\<lambda>x m. map_put (f x) m) xs m) = set m \<union> f ` set xs"
  by (induction xs arbitrary: m) (auto simp: set_map_put)

lemma uniqueGroupVersionKind_eq:
  "uniqueGroupVersionKind rng objects =
     rng (fold (\<lambda>o' m. map_put (obj_GroupVersionKind o') m) (Items objects) [])"
  by (simp add: uniqueGroupVersionKind_def Let_def fold_append_one sort_Slice_never_less)

lemma uniqueGroupKind_eq:
  "uniqueGroupKind rng objects =
     rng (fold (\<lambda>o' m. map_put (obj_GroupKind o') m) (Items objects) [])"
  by (simp add: uniqueGroupKind_def Let_def fold_append_one sort_Slice_never_less obj_GroupKind_def)

lemma range_order_ok_distinct:
  "range_order_ok rng \<Longrightarrow> distinct (rng ks) = distinct ks"
  by (metis range_order_ok_def mset_eq_imp_distinct_iff)

lemma range_order_ok_set:
  "range_order_ok rng \<Longrightarrow> set (rng ks) = set ks"
  by (metis range_order_ok_def mset_eq_setD)

lemma distinct_uniqueGroupVersionKind:
  "range_order_ok rng \<Longrightarrow> distinct (uniqueGroupVersionKind rng objects)"
  by (simp add: uniqueGroupVersionKind_eq range_order_ok_distinct distinct_fold_map_put)

lemma set_uniqueGroupVersionKind:
  "range_order_ok rng \<Longrightarrow>
     set (uniqueGroupVersionKind rng objects) = obj_GroupVersionKind ` set (Items objects)"
  by (simp add: uniqueGroupVersionKind_eq range_order_ok_set set_fold_map_put)

section \<open>Properties of the watch registry\<close>

lemma notify_loop_distinct:
  assumes "distinct gvks"
  shows "\<exists>w' new.
           notify_loop Add flt tgt gvks (w, calls) = (w', calls @ new) \<and>
           map (\<lambda>c. (callTrigger c, callOptions c, callTarget c)) new =
             map (\<lambda>gvk. (gvk, flt, tgt)) (filter (\<lambda>gvk. gvk \<notin> registered w) gvks) \<and>
           registered w' =
             registered w \<union> set (map callTrigger (filter (\<lambda>c. callResult c = None) new))"
  using assms
proof (induction gvks arbitrary: w calls)
  case Nil
  then show ?case by simp
next
  case (Cons gvk gvks)
  then have d: "distinct gvks" and n: "gvk \<notin> set gvks" by simp_all
  show ?case
  proof (cases "gvk \<in> registered w")
    case True
    then show ?thesis using Cons.IH [OF d, of w calls] by simp
  next
    case False
    obtain r d' where add: "Add (dw w) gvk flt tgt = (r, d')"
      by (cases "Add (dw w) gvk flt tgt") auto
    let ?c = "\<lparr>callTrigger = gvk, callOptions = flt, callTarget = tgt, callResult = r\<rparr>"
    show ?thesis
    proof (cases r)
      case None
      let ?w = "w\<lparr>dw := d', registered := insert gvk (registered w)\<rparr>"
      obtain w' new where
        run: "notify_loop Add flt tgt gvks (?w, calls @ [?c]) = (w', (calls @ [?c]) @ new)"
        and args: "map (\<lambda>c. (callTrigger c, callOptions c, callTarget c)) new =
               map (\<lambda>gvk. (gvk, flt, tgt)) (filter (\<lambda>g. g \<notin> registered ?w) gvks)"
        and reg: "registered w' =
               registered ?w \<union> set (map callTrigger (filter (\<lambda>c. callResult c = None) new))"
        using Cons.IH [OF d, of ?w "calls @ [?c]"] by blast
      have f: "filter (\<lambda>g. g \<notin> registered ?w) gvks = filter (\<lambda>g. g \<notin> registered w) gvks"
        using n by (auto intro: filter_cong)
      have "notify_loop Add flt tgt (gvk # gvks) (w, calls) = (w', calls @ (?c # new))"
        using False add None run by simp
      moreover have "map (\<lambda>c. (callTrigger c, callOptions c, callTarget c)) (?c # new) =
               map (\<lambda>gvk. (gvk, flt, tgt)) (filter (\<lambda>g. g \<notin> registered w) (gvk # gvks))"
        using False args f by simp
      moreover have "registered w' =
               registered w \<union> set (map callTrigger (filter (\<lambda>c. callResult c = None) (?c # new)))"
        using reg None by simp
      ultimately show ?thesis by blast
    next
      case (Some err)
      let ?w = "w\<lparr>dw := d'\<rparr>"
      obtain w' new where
        run: "notify_loop Add flt tgt gvks (?w, calls @ [?c]) = (w', (calls @ [?c]) @ new)"
        and args: "map (\<lambda>c. (callTrigger c, callOptions c, callTarget c)) new =
               map (\<lambda>gvk. (gvk, flt, tgt)) (filter (\<lambda>g. g \<notin> registered ?w) gvks)"
        and reg: "registered w' =
               registered ?w \<union> set (map callTrigger (filter (\<lambda>c. callResult c = None) new))"
        using Cons.IH [OF d, of ?w "calls @ [?c]"] by blast
      have "notify_loop Add flt tgt (gvk # gvks) (w, calls) = (w', calls @ (?c # new))"
        using False add Some run by simp
      moreover have "map (\<lambda>c. (callTrigger c, callOptions c, callTarget c)) (?c # new) =
               map (\<lambda>gvk. (gvk, flt, tgt)) (filter (\<lambda>g. g \<notin> registered w) (gvk # gvks))"
        using False args by simp
      moreover have "registered w' =
               registered w \<union> set (map callTrigger (filter (\<lambda>c. callResult c = None) (?c # new)))"
        using reg Some by simp
      ultimately show ?thesis by blast
    qed
  qed
qed

lemma notify_loop_mono:
  "registered w \<subseteq> registered (fst (notify_loop Add flt tgt gvks (w, calls)))"
proof (induction gvks arbitrary: w calls)
  case Nil
  then show ?case by simp
next
  case (Cons gvk gvks)
  show ?case
  proof (cases "gvk \<in> registered w")
    case True
    then show ?thesis using Cons.IH [of w calls] by simp
  next
    case False
    obtain r d' where add: "Add (dw w) gvk flt tgt = (r, d')"
      by (cases "Add (dw w) gvk flt tgt") auto
    let ?c = "\<lparr>callTrigger = gvk, callOptions = flt, callTarget = tgt, callResult = r\<rparr>"
    show ?thesis
    proof (cases r)
      case None
      then show ?thesis
        using False add
          Cons.IH [of "w\<lparr>dw := d', registered := insert gvk (registered w)\<rparr>" "calls @ [?c]"]
        by auto
    next
      case (Some err)
      then show ?thesis
        using False add Cons.IH [of "w\<lparr>dw := d'\<rparr>" "calls @ [?c]"] by simp
    qed
  qed
qed

text \<open>
  Claim C1. \<open>Notify\<close> walks the unique kinds of the object set. It calls the external
  \<open>Add\<close> for exactly the kinds that are not yet registered, in the order of the enumeration,
  each with the empty label filter and the owner's name and namespace. A kind whose \<open>Add\<close>
  succeeds joins the registered set; a kind whose \<open>Add\<close> fails does not, so a later
  \<open>Notify\<close> that meets it calls \<open>Add\<close> for it again. A failure does not stop the loop,
  and \<open>Notify\<close> returns no error whatever \<open>Add\<close> answers.
\<close>

theorem Notify_registers_unregistered_kinds:
  assumes "range_order_ok rng"
  shows "(case Notify Add rng w dest objs of
            (err, w', calls) \<Rightarrow>
              err = None \<and>
              map (\<lambda>c. (callTrigger c, callOptions c, callTarget c)) calls =
                map (\<lambda>gvk. (gvk, \<lparr>LabelSelector = []\<rparr>,
                              \<lparr>metaName = GetName dest, metaNamespace = GetNamespace dest\<rparr>))
                  (filter (\<lambda>gvk. gvk \<notin> registered w) (uniqueGroupVersionKind rng objs)) \<and>
              registered w' =
                registered w \<union> set (map callTrigger (filter (\<lambda>c. callResult c = None) calls)))"
proof -
  let ?flt = "\<lparr>LabelSelector = []\<rparr>"
  let ?tgt = "\<lparr>metaName = GetName dest, metaNamespace = GetNamespace dest\<rparr>"
  let ?kinds = "uniqueGroupVersionKind rng objs"
  have "distinct ?kinds"
    using assms by (rule distinct_uniqueGroupVersionKind)
  then obtain w' new where
    run: "notify_loop Add ?flt ?tgt ?kinds (w, []) = (w', [] @ new)"
    and args: "map (\<lambda>c. (callTrigger c, callOptions c, callTarget c)) new =
           map (\<lambda>gvk. (gvk, ?flt, ?tgt)) (filter (\<lambda>gvk. gvk \<notin> registered w) ?kinds)"
    and reg: "registered w' =
           registered w \<union> set (map callTrigger (filter (\<lambda>c. callResult c = None) new))"
    using notify_loop_distinct [of ?kinds Add ?flt ?tgt w "[]"] by blast
  have "Notify Add rng w dest objs = (None, w', new)"
    using run by (simp add: Notify_def Let_def)
  then show ?thesis
    using args reg by simp
qed

lemma range_order_ok_id: "range_order_ok (\<lambda>ks. ks)"
  by (simp add: range_order_ok_def)

lemma example_kinds:
  "uniqueGroupVersionKind (\<lambda>ks. ks) example_objects = [deployment_gvk, service_gvk, application_gvk]"
  by (simp add: uniqueGroupVersionKind_eq example_objects_def bare_object_def
      obj_GroupVersionKind_def map_put_def deployment_gvk_def service_gvk_def application_gvk_def)

text \<open>
  One tick on a registry that already watches Deployments, with an external watch that
  refuses its first call: \<open>Add\<close> is called for the Service and refused, called for the
  Application and accepted, and not called for the Deployment.
\<close>

lemma example_Notify:
  "Notify flaky_Add (\<lambda>ks. ks) example_registry example_owner example_objects =
     (None,
      \<lparr>dw = 2, registered = {deployment_gvk, application_gvk}\<rparr>,
      [\<lparr>callTrigger = service_gvk, callOptions = \<lparr>LabelSelector = []\<rparr>,
        callTarget = \<lparr>metaName = ''dashboard'', metaNamespace = ''kube-system''\<rparr>,
        callResult = Some (AddWatchError ''refused'')\<rparr>,
       \<lparr>callTrigger = application_gvk, callOptions = \<lparr>LabelSelector = []\<rparr>,
        callTarget = \<lparr>metaName = ''dashboard'', metaNamespace = ''kube-system''\<rparr>,
        callResult = None\<rparr>])"
  by (simp add: Notify_def Let_def example_kinds example_registry_def example_owner_def
      flaky_Add_def deployment_gvk_def service_gvk_def application_gvk_def insert_commute
      numeral_2_eq_2)

theorem Notify_registers_unregistered_kinds_witness:
  "range_order_ok (\<lambda>ks::GroupVersionKind list. ks) \<and>
   (case Notify flaky_Add (\<lambda>ks. ks) example_registry example_owner example_objects of
      (err, w', calls) \<Rightarrow>
        err = None \<and>
        map callTrigger calls = [service_gvk, application_gvk] \<and>
        map callResult calls = [Some (AddWatchError ''refused''), None] \<and>
        registered w' = {deployment_gvk, application_gvk})"
proof -
  have ok: "range_order_ok (\<lambda>ks::GroupVersionKind list. ks)"
    by (rule range_order_ok_id)
  show ?thesis
    using ok Notify_registers_unregistered_kinds
      [OF ok, where Add = flaky_Add and w = example_registry and dest = example_owner
        and objs = example_objects]
    by (simp add: example_Notify)
qed

lemma Notify_mono: "registered w \<subseteq> registered (fst (snd (Notify Add rng w dest objs)))"
  using notify_loop_mono [of w Add "\<lparr>LabelSelector = []\<rparr>"
      "\<lparr>metaName = GetName dest, metaNamespace = GetNamespace dest\<rparr>"
      "uniqueGroupVersionKind rng objs" "[]"]
  by (simp add: Notify_def Let_def split: prod.splits)

text \<open>
  Claim C6. The registered set only grows: after any sequence of \<open>Notify\<close> invocations,
  whatever the object sets hold and whatever the external watch answers, every kind that was
  registered before is still registered.
\<close>

theorem registered_never_shrinks:
  "registered w \<subseteq> registered (fst (notifications w ticks))"
proof (induction ticks arbitrary: w)
  case Nil
  show ?case by simp
next
  case (Cons t ticks)
  obtain Add rng dest objs where t: "t = (Add, rng, dest, objs)"
    by (cases t) auto
  obtain err w' calls where n: "Notify Add rng w dest objs = (err, w', calls)"
    by (cases "Notify Add rng w dest objs") auto
  have "registered w \<subseteq> registered w'"
    using Notify_mono [of w Add rng dest objs] n by simp
  also have "\<dots> \<subseteq> registered (fst (notifications w' ticks))"
    by (rule Cons.IH)
  finally show ?case
    by (auto simp: t n split: prod.splits)
qed

text \<open>
  Two ticks: the second one meets the Service again, calls \<open>Add\<close> for it again, and this time
  registers it. The kinds of the first tick that the second object set no longer holds stay
  registered.
\<close>

lemma example_notifications:
  "notifications example_registry example_ticks =
     (\<lparr>dw = 3, registered = {deployment_gvk, service_gvk, application_gvk}\<rparr>,
      [\<lparr>callTrigger = service_gvk, callOptions = \<lparr>LabelSelector = []\<rparr>,
        callTarget = \<lparr>metaName = ''dashboard'', metaNamespace = ''kube-system''\<rparr>,
        callResult = Some (AddWatchError ''refused'')\<rparr>,
       \<lparr>callTrigger = application_gvk, callOptions = \<lparr>LabelSelector = []\<rparr>,
        callTarget = \<lparr>metaName = ''dashboard'', metaNamespace = ''kube-system''\<rparr>,
        callResult = None\<rparr>,
       \<lparr>callTrigger = service_gvk, callOptions = \<lparr>LabelSelector = []\<rparr>,
        callTarget = \<lparr>metaName = ''dashboard'', metaNamespace = ''kube-system''\<rparr>,
        callResult = None\<rparr>])"
  by (simp add: example_ticks_def example_Notify)
     (simp add: Notify_def Let_def uniqueGroupVersionKind_eq example_owner_def bare_object_def
        obj_GroupVersionKind_def map_put_def flaky_Add_def
        deployment_gvk_def service_gvk_def application_gvk_def insert_commute
        numeral_3_eq_3)

theorem registered_never_shrinks_witness:
  "registered example_registry \<subseteq> registered (fst (notifications example_registry example_ticks)) \<and>
   registered example_registry = {deployment_gvk} \<and>
   registered (fst (notifications example_registry example_ticks)) =
     {deployment_gvk, service_gvk, application_gvk}"
  using registered_never_shrinks [of example_registry example_ticks]
  by (simp add: example_notifications) (simp add: example_registry_def)

text \<open>
  Four ticks one after the other, bringing a Deployment, a Service, a Deployment again and
  an Application to an empty registry: three calls to \<open>Add\<close>, one for each kind.
\<close>

lemma four_ticks_three_calls:
  "map callTrigger (snd (notifications \<lparr>dw = (), registered = {}\<rparr> four_ticks)) =
     [deployment_gvk, service_gvk, application_gvk] \<and>
   registered (fst (notifications \<lparr>dw = (), registered = {}\<rparr> four_ticks)) =
     {deployment_gvk, service_gvk, application_gvk}"
  by (simp add: four_ticks_def Notify_def Let_def uniqueGroupVersionKind_eq example_owner_def
      bare_object_def obj_GroupVersionKind_def map_put_def accepting_Add_def
      deployment_gvk_def service_gvk_def application_gvk_def insert_commute)

section \<open>Properties of the application transforms\<close>

text \<open>
  Claim C10. For an owner that does not implement \<open>CommonObject\<close>,
  \<open>TransformApplicationFromStatus\<close> returns an error whatever the object set holds, and the
  object set is left as it was.
\<close>

theorem TransformApplicationFromStatus_rejects_other_owner:
  assumes "asCommonObject instance = None"
  shows "TransformApplicationFromStatus instance objects = (Some NotCommonObject, objects)"
  using assms by (simp add: TransformApplicationFromStatus_def)

theorem TransformApplicationFromStatus_rejects_other_owner_witness:
  "asCommonObject example_owner = None \<and>
   TransformApplicationFromStatus example_owner example_objects = (Some NotCommonObject, example_objects)"
proof -
  have h: "asCommonObject example_owner = None"
    by (simp add: example_owner_def)
  show ?thesis
    using h TransformApplicationFromStatus_rejects_other_owner [OF h, of example_objects] by simp
qed

lemma locateApplication_Cons:
  "locateApplication (x # xs) i a =
     (if is_application x
      then (if a \<noteq> None then Multiple else locateApplication xs (Suc i) (Some i))
      else locateApplication xs (Suc i) a)"
  by (simp add: is_application_def)

lemma locateApplication_none:
  "\<forall>o' \<in> set os. \<not> is_application o' \<Longrightarrow> locateApplication os k a = Located a"
  by (induction os arbitrary: k a)
     (simp_all add: locateApplication_Cons del: locateApplication.simps(2))

text \<open>
  What the search loop returns, by the number of Application objects met: the pointer it
  started with when there is none, the position of the Application when there is exactly
  one and the loop started without a pointer, and the early return in every other case.
\<close>

lemma locateApplication_count:
  "locateApplication os k a =
     (let n = length (filter is_application os)
      in if n = 0 then Located a
         else if n = 1 \<and> a = None
              then Located (Some (k + length (takeWhile (\<lambda>o'. \<not> is_application o') os)))
              else Multiple)"
proof (induction os arbitrary: k a)
  case Nil
  show ?case by simp
next
  case (Cons x xs)
  show ?case
  proof (cases "is_application x")
    case True
    show ?thesis
    proof (cases a)
      case None
      then show ?thesis
        using True Cons.IH [of "Suc k" "Some k"]
        by (simp add: Let_def locateApplication_Cons del: locateApplication.simps(2))
    next
      case (Some b)
      then show ?thesis
        using True by (simp add: Let_def locateApplication_Cons del: locateApplication.simps(2))
    qed
  next
    case False
    then show ?thesis
      using Cons.IH [of "Suc k" a]
      by (simp add: Let_def locateApplication_Cons del: locateApplication.simps(2))
  qed
qed

lemma locateApplication_not_single:
  assumes "length (filter is_application os) \<noteq> 1"
  shows "locateApplication os 0 None = Multiple \<or> locateApplication os 0 None = Located None"
  using assms by (simp add: locateApplication_count Let_def)

lemma locateApplication_single:
  assumes "length (filter is_application os) = 1" "i < length os" "is_application (os ! i)"
  shows "locateApplication os k None = Located (Some (k + i))"
  using assms
proof (induction os arbitrary: i k)
  case Nil
  then show ?case by simp
next
  case (Cons x xs)
  show ?case
  proof (cases "is_application x")
    case True
    then have none: "\<forall>o' \<in> set xs. \<not> is_application o'"
      using Cons.prems(1) by (simp add: filter_empty_conv)
    have "i = 0"
    proof (cases i)
      case (Suc i')
      then have "xs ! i' \<in> set xs" "is_application (xs ! i')"
        using Cons.prems(2,3) by simp_all
      then show ?thesis using none by blast
    qed simp
    moreover have "locateApplication xs (Suc k) (Some k) = Located (Some k)"
      using none by (rule locateApplication_none)
    ultimately show ?thesis
      using True by (simp add: locateApplication_Cons del: locateApplication.simps(2))
  next
    case False
    then obtain i' where i: "i = Suc i'"
      using Cons.prems(3) by (cases i) auto
    have "locateApplication xs (Suc k) None = Located (Some (Suc k + i'))"
    proof (rule Cons.IH)
      show "length (filter is_application xs) = 1" using Cons.prems(1) False by simp
      show "i' < length xs" using Cons.prems(2) i by simp
      show "is_application (xs ! i')" using Cons.prems(3) i by simp
    qed
    then show ?thesis
      using False i by (simp add: locateApplication_Cons del: locateApplication.simps(2))
  qed
qed

text \<open>
  \<open>settable\<close> says exactly when a write succeeds: on a settable path the value is stored and
  read back from the same path, on any other path the write returns an error.
\<close>

lemma setNestedField_settable:
  "settable m path \<Longrightarrow>
     \<exists>m'. setNestedField m v path = Inr m' \<and> NestedFieldNoCopy (VMap m') path = Inr (Some v)"
proof (induction m v path rule: setNestedField.induct)
  case (1 m v)
  then show ?case by simp
next
  case (2 m v field)
  show ?case by simp
next
  case (3 m v field nxt rest)
  show ?case
  proof (cases "m field")
    case None
    have "settable Map.empty (nxt # rest)"
      by (cases rest) simp_all
    from "3.IH"(1) [OF None this] None show ?thesis by auto
  next
    case (Some x)
    with "3.prems" obtain sub where x: "x = VMap sub" and s: "settable sub (nxt # rest)"
      by (cases x) simp_all
    from "3.IH"(2) [OF Some x s] Some x show ?thesis by auto
  qed
qed

lemma setNestedField_not_settable:
  "\<not> settable m path \<Longrightarrow> \<exists>err. setNestedField m v path = Inl err"
proof (induction m v path rule: setNestedField.induct)
  case (1 m v)
  then show ?case by simp
next
  case (2 m v field)
  then show ?case by simp
next
  case (3 m v field nxt rest)
  show ?case
  proof (cases "m field")
    case None
    with "3.prems" show ?thesis by simp
  next
    case (Some x)
    show ?thesis
    proof (cases x)
      case (VMap sub)
      with "3.prems" Some have "\<not> settable sub (nxt # rest)" by simp
      from "3.IH"(2) [OF Some VMap this] Some VMap show ?thesis by auto
    qed (use Some in simp_all)
  qed
qed

lemma snd_SetNestedField: "snd (SetNestedField o' v path) = store_at o' v path"
  by (simp add: SetNestedField_def store_at_def split: sum.splits)

lemma snd_SetNestedFieldNoCopy: "snd (SetNestedFieldNoCopy o' v path) = store_at o' v path"
  by (simp add: SetNestedFieldNoCopy_def store_at_def split: sum.splits)

lemma TransformApplicationFromStatus_located:
  assumes "asCommonObject instance = Some addon"
    and "locateApplication (Items objects) 0 None = Located (Some i)"
  shows "TransformApplicationFromStatus instance objects =
     (None, objects\<lparr>Items := (Items objects)
        [i := store_at (store_at (Items objects ! i) (VString (specVersion (CommonSpec addon)))
                          [''spec'', ''descriptor'', ''version''])
                (VString (if Healthy (GetCommonStatus addon) then Succeeded else Pending))
                [''spec'', ''assemblyPhase'']]\<rparr>)"
  using assms
  by (simp add: TransformApplicationFromStatus_def Let_def case_prod_beta snd_SetNestedField)

text \<open>
  The field tree after the two writes of \<open>TransformApplicationFromStatus\<close>, by the shape of
  \<open>spec\<close> and \<open>spec.descriptor\<close> before them.
\<close>

lemma store_twice:
  "object (store_at (store_at app v1 [''spec'', ''descriptor'', ''version''])
                    v2 [''spec'', ''assemblyPhase'']) =
     (case object app ''spec'' of
        None \<Rightarrow>
          (object app)(''spec'' \<mapsto>
             VMap [''descriptor'' \<mapsto> VMap [''version'' \<mapsto> v1], ''assemblyPhase'' \<mapsto> v2])
      | Some (VMap sub) \<Rightarrow>
          (case sub ''descriptor'' of
             None \<Rightarrow>
               (object app)(''spec'' \<mapsto>
                  VMap (sub(''descriptor'' \<mapsto> VMap [''version'' \<mapsto> v1], ''assemblyPhase'' \<mapsto> v2)))
           | Some (VMap d) \<Rightarrow>
               (object app)(''spec'' \<mapsto>
                  VMap (sub(''descriptor'' \<mapsto> VMap (d(''version'' \<mapsto> v1)), ''assemblyPhase'' \<mapsto> v2)))
           | Some _ \<Rightarrow> (object app)(''spec'' \<mapsto> VMap (sub(''assemblyPhase'' \<mapsto> v2))))
      | Some _ \<Rightarrow> object app)"
proof (cases "object app ''spec''")
  case None
  then show ?thesis by (simp add: store_at_def)
next
  case (Some x)
  show ?thesis
  proof (cases x)
    case (VMap sub)
    show ?thesis
    proof (cases "sub ''descriptor''")
      case None
      then show ?thesis using Some VMap by (simp add: store_at_def)
    next
      case (Some y)
      then show ?thesis using \<open>object app ''spec'' = Some x\<close> VMap
        by (cases y) (simp_all add: store_at_def)
    qed
  qed (use Some in \<open>simp_all add: store_at_def\<close>)
qed

lemma phase_written:
  assumes "settable (object app) [''spec'', ''assemblyPhase'']"
  shows "NestedFieldNoCopy
           (VMap (object (store_at (store_at app v1 [''spec'', ''descriptor'', ''version''])
                            v2 [''spec'', ''assemblyPhase''])))
           [''spec'', ''assemblyPhase''] = Inr (Some v2)"
proof (cases "object app ''spec''")
  case None
  then show ?thesis by (simp add: store_twice)
next
  case (Some x)
  then obtain sub where x: "x = VMap sub"
    using assms by (cases x) simp_all
  show ?thesis
  proof (cases "sub ''descriptor''")
    case None
    then show ?thesis using Some x by (simp add: store_twice)
  next
    case (Some y)
    then show ?thesis using \<open>object app ''spec'' = Some x\<close> x
      by (cases y) (simp_all add: store_twice)
  qed
qed

lemma version_written:
  assumes "settable (object app) [''spec'', ''descriptor'', ''version'']"
  shows "NestedFieldNoCopy
           (VMap (object (store_at (store_at app v1 [''spec'', ''descriptor'', ''version''])
                            v2 [''spec'', ''assemblyPhase''])))
           [''spec'', ''descriptor'', ''version''] = Inr (Some v1)"
proof (cases "object app ''spec''")
  case None
  then show ?thesis by (simp add: store_twice)
next
  case (Some x)
  then obtain sub where x: "x = VMap sub"
    using assms by (cases x) simp_all
  show ?thesis
  proof (cases "sub ''descriptor''")
    case None
    then show ?thesis using Some x by (simp add: store_twice)
  next
    case (Some y)
    then obtain d where y: "y = VMap d"
      using assms \<open>object app ''spec'' = Some x\<close> x by (cases y) simp_all
    then show ?thesis using \<open>object app ''spec'' = Some x\<close> x Some
      by (simp add: store_twice)
  qed
qed

text \<open>
  Claim C7, amended. Let the owner implement \<open>CommonObject\<close> and let the object at position
  \<open>i\<close> be the only \<open>app.k8s.io/Application\<close> of the set. Then
  \<open>TransformApplicationFromStatus\<close> returns no error and changes no other object. It sets
  \<open>spec.assemblyPhase\<close> of that object to \<open>Succeeded\<close> when the owner's status is healthy
  and to \<open>Pending\<close> otherwise, provided \<open>spec\<close> is absent or a map; and it sets
  \<open>spec.descriptor.version\<close> to the version of the owner's common spec, provided
  \<open>spec\<close> and \<open>spec.descriptor\<close> are each absent or a map.
\<close>

theorem TransformApplicationFromStatus_phase_and_version:
  assumes "asCommonObject instance = Some addon"
    and "length (filter is_application (Items objects)) = 1"
    and "i < length (Items objects)"
    and "is_application (Items objects ! i)"
  shows "(let r = TransformApplicationFromStatus instance objects;
              app = Items objects ! i;
              app' = Items (snd r) ! i
          in fst r = None \<and>
             Items (snd r) = (Items objects)[i := app'] \<and>
             (settable (object app) [''spec'', ''assemblyPhase''] \<longrightarrow>
                NestedFieldNoCopy (VMap (object app')) [''spec'', ''assemblyPhase''] =
                  Inr (Some (VString (if Healthy (GetCommonStatus addon)
                                      then ''Succeeded'' else ''Pending'')))) \<and>
             (settable (object app) [''spec'', ''descriptor'', ''version''] \<longrightarrow>
                NestedFieldNoCopy (VMap (object app')) [''spec'', ''descriptor'', ''version''] =
                  Inr (Some (VString (specVersion (CommonSpec addon))))))"
proof -
  let ?phase = "VString (if Healthy (GetCommonStatus addon) then ''Succeeded'' else ''Pending'')"
  let ?version = "VString (specVersion (CommonSpec addon))"
  let ?app = "Items objects ! i"
  let ?app' = "store_at (store_at ?app ?version [''spec'', ''descriptor'', ''version''])
                 ?phase [''spec'', ''assemblyPhase'']"
  let ?r = "TransformApplicationFromStatus instance objects"
  have loc: "locateApplication (Items objects) 0 None = Located (Some i)"
    using locateApplication_single [OF assms(2,3,4), of 0] by simp
  have eq: "?r = (None, objects\<lparr>Items := (Items objects)[i := ?app']\<rparr>)"
    using TransformApplicationFromStatus_located [OF assms(1) loc]
    by (simp only: Succeeded_def Pending_def)
  have r1: "fst ?r = None"
    by (simp only: eq fst_conv)
  have r2: "Items (snd ?r) ! i = ?app'"
    using assms(3) by (simp only: eq snd_conv) simp
  have r3: "Items (snd ?r) = (Items objects)[i := ?app']"
    by (simp only: eq snd_conv) simp
  have p: "settable (object ?app) [''spec'', ''assemblyPhase''] \<longrightarrow>
             NestedFieldNoCopy (VMap (object ?app')) [''spec'', ''assemblyPhase''] = Inr (Some ?phase)"
    using phase_written by blast
  have v: "settable (object ?app) [''spec'', ''descriptor'', ''version''] \<longrightarrow>
             NestedFieldNoCopy (VMap (object ?app')) [''spec'', ''descriptor'', ''version''] =
               Inr (Some ?version)"
    using version_written by blast
  show ?thesis
    unfolding Let_def r2 using r1 r3 p v by blast
qed

theorem TransformApplicationFromStatus_phase_and_version_witness:
  "asCommonObject healthy_owner = Some \<lparr>CommonSpec = \<lparr>specVersion = ''1.8.3''\<rparr>,
                                         GetCommonStatus = \<lparr>Healthy = True\<rparr>\<rparr> \<and>
   length (filter is_application (Items app_and_service)) = 1 \<and>
   (0::nat) < length (Items app_and_service) \<and>
   is_application (Items app_and_service ! 0) \<and>
   settable (object (Items app_and_service ! 0)) [''spec'', ''assemblyPhase''] \<and>
   settable (object (Items app_and_service ! 0)) [''spec'', ''descriptor'', ''version''] \<and>
   fst (TransformApplicationFromStatus healthy_owner app_and_service) = None \<and>
   NestedFieldNoCopy
     (VMap (object (Items (snd (TransformApplicationFromStatus healthy_owner app_and_service)) ! 0)))
     [''spec'', ''assemblyPhase''] = Inr (Some (VString ''Succeeded'')) \<and>
   NestedFieldNoCopy
     (VMap (object (Items (snd (TransformApplicationFromStatus healthy_owner app_and_service)) ! 0)))
     [''spec'', ''descriptor'', ''version''] = Inr (Some (VString ''1.8.3''))"
proof -
  have a: "asCommonObject healthy_owner = Some \<lparr>CommonSpec = \<lparr>specVersion = ''1.8.3''\<rparr>,
                                         GetCommonStatus = \<lparr>Healthy = True\<rparr>\<rparr>"
    by (simp add: healthy_owner_def)
  have b: "length (filter is_application (Items app_and_service)) = 1"
    by (simp add: app_and_service_def is_application_def bare_object_def application_gvk_def
        service_gvk_def)
  have c: "(0::nat) < length (Items app_and_service)"
    by (simp add: app_and_service_def)
  have d: "is_application (Items app_and_service ! 0)"
    by (simp add: app_and_service_def is_application_def bare_object_def application_gvk_def)
  have e: "settable (object (Items app_and_service ! 0)) [''spec'', ''assemblyPhase'']"
    "settable (object (Items app_and_service ! 0)) [''spec'', ''descriptor'', ''version'']"
    by (simp_all add: app_and_service_def bare_object_def)
  show ?thesis
    using a b c d e TransformApplicationFromStatus_phase_and_version [OF a b c d]
    by (simp add: Let_def)
qed

text \<open>
  Claim C7 as stated fails where the Application's \<open>spec\<close> is not a map: the set below holds
  exactly one Application, the owner is healthy, the write through \<open>spec\<close> fails, its error
  is dropped, and \<open>spec.assemblyPhase\<close> does not read \<open>Succeeded\<close> afterwards.
\<close>

theorem TransformApplicationFromStatus_scalar_spec_counterexample:
  "asCommonObject healthy_owner \<noteq> None \<and>
   Healthy (GetCommonStatus (the (asCommonObject healthy_owner))) \<and>
   length (filter is_application (Items scalar_spec_application)) = 1 \<and>
   NestedFieldNoCopy
     (VMap (object (Items (snd (TransformApplicationFromStatus healthy_owner scalar_spec_application)) ! 0)))
     [''spec'', ''assemblyPhase''] \<noteq> Inr (Some (VString ''Succeeded''))"
  by (simp add: healthy_owner_def scalar_spec_application_def is_application_def bare_object_def
      application_gvk_def TransformApplicationFromStatus_def SetNestedField_def Let_def)

text \<open>
  Claim C4, amended. When the number of \<open>app.k8s.io/Application\<close> objects in the set is not
  one, \<open>transformApplication\<close> returns no error and the set unchanged, and
  \<open>TransformApplicationFromStatus\<close> leaves the set unchanged and returns no error for an
  owner that implements \<open>CommonObject\<close>.
\<close>

theorem application_transforms_skip_unless_single:
  assumes "length (filter is_application (Items objects)) \<noteq> 1"
  shows "transformApplication rng instance objects labelMaker = (None, objects) \<and>
         snd (TransformApplicationFromStatus instance objects) = objects \<and>
         (asCommonObject instance \<noteq> None \<longrightarrow>
            fst (TransformApplicationFromStatus instance objects) = None)"
  using locateApplication_not_single [OF assms]
  by (auto simp: transformApplication_def TransformApplicationFromStatus_def split: option.splits)

theorem application_transforms_skip_unless_single_witness:
  "length (filter is_application (Items two_applications)) \<noteq> 1 \<and>
   asCommonObject healthy_owner \<noteq> None \<and>
   transformApplication rev healthy_owner two_applications example_labels = (None, two_applications) \<and>
   TransformApplicationFromStatus healthy_owner two_applications = (None, two_applications)"
proof -
  have h: "length (filter is_application (Items two_applications)) \<noteq> 1"
    by (simp add: two_applications_def is_application_def bare_object_def application_gvk_def
        service_gvk_def)
  have c: "asCommonObject healthy_owner \<noteq> None"
    by (simp add: healthy_owner_def)
  show ?thesis
    using h c application_transforms_skip_unless_single [OF h, of rev healthy_owner example_labels]
    by (simp add: prod_eq_iff)
qed

text \<open>
  Claim C4 as stated fails for an owner that does not implement \<open>CommonObject\<close>: on the empty
  object set, which holds no Application, \<open>TransformApplicationFromStatus\<close> returns an error.
\<close>

theorem application_transforms_other_owner_counterexample:
  "length (filter is_application (Items \<lparr>Items = []\<rparr>)) \<noteq> 1 \<and>
   fst (TransformApplicationFromStatus example_owner \<lparr>Items = []\<rparr>) \<noteq> None"
  by (simp add: TransformApplicationFromStatus_def example_owner_def)

lemma obj_GroupVersionKind_store_at: "obj_GroupVersionKind (store_at o' v path) = obj_GroupVersionKind o'"
  by (simp add: obj_GroupVersionKind_def store_at_def split: sum.splits)

lemma is_application_store_at: "is_application (store_at o' v path) = is_application o'"
  by (simp add: is_application_def store_at_def split: sum.splits)

lemma uniqueGroupVersionKind_map:
  "uniqueGroupVersionKind rng objects =
     rng (fold map_put (map obj_GroupVersionKind (Items objects)) [])"
  by (simp add: uniqueGroupVersionKind_eq fold_map comp_def)

lemma uniqueGroupVersionKind_store_at:
  assumes "i < length (Items objects)"
  shows "uniqueGroupVersionKind rng
           (objects\<lparr>Items := (Items objects)[i := store_at (Items objects ! i) v path]\<rparr>) =
         uniqueGroupVersionKind rng objects"
proof -
  have "(map obj_GroupVersionKind (Items objects))[i := obj_GroupVersionKind (Items objects ! i)] =
        map obj_GroupVersionKind (Items objects)"
    using assms by (metis list_update_id nth_map)
  then show ?thesis
    by (simp add: uniqueGroupVersionKind_map map_update obj_GroupVersionKind_store_at)
qed

lemma transformApplication_located:
  assumes "locateApplication (Items objects) 0 None = Located (Some i)"
    and "i < length (Items objects)"
  shows "transformApplication rng instance objects labelMaker =
     (None, objects\<lparr>Items := (Items objects)
        [i := store_at (store_at (Items objects ! i) (VLabelSelector (labelMaker instance))
                          [''spec'', ''selector''])
                (VGroupVersionKinds (uniqueGroupVersionKind rng objects))
                [''spec'', ''componentGroupKinds'']]\<rparr>)"
  using assms
  by (simp add: transformApplication_def Let_def case_prod_beta snd_SetNestedFieldNoCopy
      uniqueGroupVersionKind_store_at)

lemma store_selector_and_kinds:
  "object (store_at (store_at app v1 [''spec'', ''selector'']) v2 [''spec'', ''componentGroupKinds'']) =
     (case object app ''spec'' of
        None \<Rightarrow> (object app)(''spec'' \<mapsto> VMap [''selector'' \<mapsto> v1, ''componentGroupKinds'' \<mapsto> v2])
      | Some (VMap sub) \<Rightarrow>
          (object app)(''spec'' \<mapsto> VMap (sub(''selector'' \<mapsto> v1, ''componentGroupKinds'' \<mapsto> v2)))
      | Some _ \<Rightarrow> object app)"
proof (cases "object app ''spec''")
  case None
  then show ?thesis by (simp add: store_at_def)
next
  case (Some x)
  then show ?thesis by (cases x) (simp_all add: store_at_def)
qed

lemma selector_and_kinds_written:
  assumes "settable (object app) [''spec'', ''selector'']"
  shows "\<exists>sub. object (store_at (store_at app v1 [''spec'', ''selector''])
                          v2 [''spec'', ''componentGroupKinds'']) ''spec'' = Some (VMap sub) \<and>
               sub ''selector'' = Some v1 \<and> sub ''componentGroupKinds'' = Some v2"
proof (cases "object app ''spec''")
  case None
  then show ?thesis by (simp add: store_selector_and_kinds)
next
  case (Some x)
  then obtain sub where "x = VMap sub"
    using assms by (cases x) simp_all
  with Some show ?thesis by (simp add: store_selector_and_kinds)
qed

text \<open>
  What \<open>transformApplication\<close> writes in general: when the set holds exactly one Application,
  at position \<open>i\<close>, and its \<open>spec\<close> is absent or a map, the transform returns no error,
  changes no other object, and afterwards \<open>spec.selector\<close> holds the label selector built
  from the owner's labels and \<open>spec.componentGroupKinds\<close> holds the result of
  \<open>uniqueGroupVersionKind\<close> on the object set.
\<close>

lemma transformApplication_writes:
  assumes "length (filter is_application (Items objects)) = 1"
    and "i < length (Items objects)"
    and "is_application (Items objects ! i)"
    and "settable (object (Items objects ! i)) [''spec'', ''selector'']"
  shows "(let r = transformApplication rng instance objects labelMaker;
              app' = Items (snd r) ! i
          in fst r = None \<and>
             Items (snd r) = (Items objects)[i := app'] \<and>
             NestedFieldNoCopy (VMap (object app')) [''spec'', ''selector''] =
               Inr (Some (VLabelSelector (labelMaker instance))) \<and>
             NestedFieldNoCopy (VMap (object app')) [''spec'', ''componentGroupKinds''] =
               Inr (Some (VGroupVersionKinds (uniqueGroupVersionKind rng objects))))"
proof -
  let ?app = "Items objects ! i"
  let ?app' = "store_at (store_at ?app (VLabelSelector (labelMaker instance)) [''spec'', ''selector''])
                 (VGroupVersionKinds (uniqueGroupVersionKind rng objects))
                 [''spec'', ''componentGroupKinds'']"
  let ?r = "transformApplication rng instance objects labelMaker"
  have loc: "locateApplication (Items objects) 0 None = Located (Some i)"
    using locateApplication_single [OF assms(1,2,3), of 0] by simp
  have eq: "?r = (None, objects\<lparr>Items := (Items objects)[i := ?app']\<rparr>)"
    by (rule transformApplication_located [OF loc assms(2)])
  have r1: "fst ?r = None"
    by (simp only: eq fst_conv)
  have r2: "Items (snd ?r) ! i = ?app'"
    using assms(2) by (simp only: eq snd_conv) simp
  have r3: "Items (snd ?r) = (Items objects)[i := ?app']"
    by (simp only: eq snd_conv) simp
  obtain sub where sub: "object ?app' ''spec'' = Some (VMap sub)"
      "sub ''selector'' = Some (VLabelSelector (labelMaker instance))"
      "sub ''componentGroupKinds'' = Some (VGroupVersionKinds (uniqueGroupVersionKind rng objects))"
    using selector_and_kinds_written [OF assms(4)] by blast
  have s: "NestedFieldNoCopy (VMap (object ?app')) [''spec'', ''selector''] =
             Inr (Some (VLabelSelector (labelMaker instance)))"
    using sub by simp
  have k: "NestedFieldNoCopy (VMap (object ?app')) [''spec'', ''componentGroupKinds''] =
             Inr (Some (VGroupVersionKinds (uniqueGroupVersionKind rng objects)))"
    using sub by simp
  show ?thesis
    unfolding Let_def r2 using r1 r3 s k by blast
qed

text \<open>
  Claim C3, evaluated on a set of one Application and one Service with the map ranged over
  in insertion order. \<open>transformApplication\<close> stores under \<open>spec.componentGroupKinds\<close> the
  result of \<open>uniqueGroupVersionKind\<close>: group, version and kind of each object, the
  Application first although the Service's string form is the smaller one. The list of
  GroupKinds that \<open>uniqueGroupKind\<close> computes is not what is stored.
\<close>

theorem transformApplication_stores_version_kinds:
  "length (filter is_application (Items app_and_service)) = 1 \<and>
   NestedFieldNoCopy
     (VMap (object (Items (snd (transformApplication (\<lambda>ks. ks) healthy_owner app_and_service
                                  example_labels)) ! 0)))
     [''spec'', ''componentGroupKinds''] =
     Inr (Some (VGroupVersionKinds [application_gvk, service_gvk])) \<and>
   gvk_String service_gvk < gvk_String application_gvk \<and>
   uniqueGroupKind (\<lambda>ks. ks) app_and_service = [application_gk, service_gk]"
  by (simp add: transformApplication_def SetNestedFieldNoCopy_def Let_def
      uniqueGroupVersionKind_def uniqueGroupKind_def sort_Slice_def app_and_service_def
      bare_object_def obj_GroupVersionKind_def obj_GroupKind_def map_put_def is_application_def
      application_gvk_def service_gvk_def application_gk_def service_gk_def gvk_String_def)

section \<open>Properties of the image registry transform\<close>

lemma strings_Split_example:
  "strings_Split ''myrepo/foo/bar:v1'' CHR ''/'' = [''myrepo'', ''foo'', ''bar:v1'']"
  by simp



text \<open>
  The same rewrite seen from \<open>applyImageRegistry\<close>, on a Deployment with that container.
\<close>

lemma applyImageRegistry_deployment_example:
  "fst (applyImageRegistry example_owner \<lparr>Items = [example_deployment]\<rparr> ''registry.example.com'' []) = None \<and>
   NestedFieldNoCopy
     (VMap (object (Items (snd (applyImageRegistry example_owner \<lparr>Items = [example_deployment]\<rparr>
                                  ''registry.example.com'' [])) ! 0)))
     [''spec'', ''template'', ''spec'', ''containers''] =
     Inr (Some (VList [VMap [''name'' \<mapsto> VString ''bar'',
                             ''image'' \<mapsto> VString ''registry.example.com/bar:v1'']]))"
  by (simp add: applyImageRegistry_def applyImageRegistry_item_def example_deployment_def
      bare_object_def deployment_gvk_def
      is_workload_def MutateContainers_def applyPrivateRegistryToContainer_def NestedString_def
      example_container_def store_at_def)

section \<open>Order of the unique kinds\<close>

text \<open>
  Claim C2, evaluated on a set of one Application and one Service. Ranged over in insertion
  order, \<open>uniqueGroupVersionKind\<close> returns the Application before the Service, although the
  Service's string form is the smaller one; ranged over in the opposite order it returns the
  other sequence for the same input. \<open>uniqueGroupKind\<close> behaves alike: in one order it
  returns the Service before the Application, whose string form is the smaller one.
\<close>

theorem unique_kinds_follow_map_order:
  "uniqueGroupVersionKind (\<lambda>ks. ks) app_and_service = [application_gvk, service_gvk] \<and>
   gvk_String service_gvk < gvk_String application_gvk \<and>
   uniqueGroupVersionKind rev app_and_service = [service_gvk, application_gvk] \<and>
   uniqueGroupKind rev app_and_service = [service_gk, application_gk] \<and>
   gk_String application_gk < gk_String service_gk \<and>
   uniqueGroupKind (\<lambda>ks. ks) app_and_service = [application_gk, service_gk]"
  by (simp add: uniqueGroupVersionKind_def uniqueGroupKind_def sort_Slice_def app_and_service_def
      bare_object_def obj_GroupVersionKind_def obj_GroupKind_def map_put_def
      application_gvk_def service_gvk_def application_gk_def service_gk_def
      gvk_String_def gk_String_def)

section \<open>Repeated runs of the object transforms\<close>

text \<open>
  Reading and writing the same path: a path that reads a value can be written, writing the
  value that is already there changes nothing, and a value written is the value read.
\<close>

lemma found_settable:
  "NestedFieldNoCopy (VMap m) path = Inr (Some x) \<Longrightarrow> path \<noteq> [] \<Longrightarrow> settable m path"
proof (induction m x path rule: setNestedField.induct)
  case (1 m v)
  then show ?case by simp
next
  case (2 m v field)
  show ?case by simp
next
  case (3 m v field nxt rest)
  from "3.prems"(1) obtain y where y: "m field = Some y"
    and r: "NestedFieldNoCopy y (nxt # rest) = Inr (Some v)"
    by (cases "m field") simp_all
  from r obtain sub where sub: "y = VMap sub"
    by (cases y) simp_all
  have "settable sub (nxt # rest)"
    using "3.IH"(2) [OF y sub] r sub by simp
  then show ?case using y sub by simp
qed

lemma setNestedField_same:
  "NestedFieldNoCopy (VMap m) path = Inr (Some v) \<Longrightarrow> path \<noteq> [] \<Longrightarrow>
     setNestedField m v path = Inr m"
proof (induction m v path rule: setNestedField.induct)
  case (1 m v)
  then show ?case by simp
next
  case (2 m v field)
  then have "m field = Some v"
    by (cases "m field") simp_all
  then have "m(field \<mapsto> v) = m"
    by (rule map_upd_triv)
  then show ?case by simp
next
  case (3 m v field nxt rest)
  from "3.prems"(1) obtain y where y: "m field = Some y"
    and r: "NestedFieldNoCopy y (nxt # rest) = Inr (Some v)"
    by (cases "m field") simp_all
  from r obtain sub where sub: "y = VMap sub"
    by (cases y) simp_all
  have "setNestedField sub v (nxt # rest) = Inr sub"
    using "3.IH"(2) [OF y sub] r sub by simp
  moreover have "m(field \<mapsto> VMap sub) = m"
    using y sub by (simp add: map_upd_triv)
  ultimately show ?case using y sub by simp
qed

lemma store_at_found:
  assumes "NestedFieldNoCopy (VMap (object o')) path = Inr (Some x)" "path \<noteq> []"
  shows "NestedFieldNoCopy (VMap (object (store_at o' v path))) path = Inr (Some v)"
proof -
  have "settable (object o') path"
    using assms by (rule found_settable)
  then obtain m' where "setNestedField (object o') v path = Inr m'"
    "NestedFieldNoCopy (VMap m') path = Inr (Some v)"
    using setNestedField_settable by blast
  then show ?thesis by (simp add: store_at_def)
qed

lemma store_at_same:
  assumes "NestedFieldNoCopy (VMap (object o')) path = Inr (Some v)" "path \<noteq> []"
  shows "store_at o' v path = o'"
  using setNestedField_same [OF assms] by (simp add: store_at_def)

lemma NestedFieldNoCopy_append:
  "NestedFieldNoCopy v (p @ q) =
     (case NestedFieldNoCopy v p of
        Inl err \<Rightarrow> Inl err
      | Inr None \<Rightarrow> Inr None
      | Inr (Some x) \<Rightarrow> NestedFieldNoCopy x q)"
proof (induction p arbitrary: v)
  case Nil
  show ?case by simp
next
  case (Cons field p)
  show ?case
  proof (cases v)
    case (VMap m)
    then show ?thesis using Cons.IH by (cases "m field") simp_all
  qed simp_all
qed

text \<open>
  The loop over the containers gives the same containers and the same error when it runs
  again on its own result, for a function on containers that does.
\<close>

lemma mutate_each_idem:
  assumes fn: "\<And>c c'. fn c = Inr c' \<Longrightarrow> fn c' = Inr c'"
  shows "mutate_each fn cs = (e, cs') \<Longrightarrow> mutate_each fn cs' = (e, cs')"
proof (induction cs arbitrary: e cs')
  case Nil
  then show ?case by simp
next
  case (Cons co cos)
  show ?case
  proof (cases co)
    case (VMap c)
    show ?thesis
    proof (cases "fn c")
      case (Inl err)
      then show ?thesis using Cons.prems VMap by auto
    next
      case (Inr c')
      obtain e1 cos1 where rest: "mutate_each fn cos = (e1, cos1)"
        by (cases "mutate_each fn cos") auto
      then have res: "e = e1" "cs' = VMap c' # cos1"
        using Cons.prems VMap Inr by simp_all
      have "mutate_each fn cos1 = (e1, cos1)"
        using rest by (rule Cons.IH)
      then show ?thesis
        using res fn [OF Inr] by simp
    qed
  qed (use Cons.prems in auto)
qed

text \<open>
  The last piece of a split holds no separator, so the image name the registry transform
  keeps is the image name it finds when it runs again on its own result.
\<close>

lemma strings_Split_nonempty: "strings_Split s sep \<noteq> []"
  by (cases s) (simp_all add: Let_def)

lemma strings_Split_no_sep: "sep \<notin> set s \<Longrightarrow> strings_Split s sep = [s]"
  by (induction s) (auto simp: Let_def)

lemma strings_Split_append:
  "strings_Split (a @ sep # b) sep = strings_Split a sep @ strings_Split b sep"
proof (induction a)
  case Nil
  show ?case by (simp add: Let_def)
next
  case (Cons c a)
  show ?case
  proof (cases "c = sep")
    case True
    then show ?thesis using Cons.IH by (simp add: Let_def)
  next
    case False
    have "strings_Split a sep \<noteq> []"
      by (rule strings_Split_nonempty)
    then show ?thesis using False Cons.IH by (simp add: Let_def)
  qed
qed

lemma strings_Split_parts: "p \<in> set (strings_Split s sep) \<Longrightarrow> sep \<notin> set p"
proof (induction s arbitrary: p)
  case Nil
  then show ?case by simp
next
  case (Cons c s)
  let ?parts = "strings_Split s sep"
  have ne: "?parts \<noteq> []" by (rule strings_Split_nonempty)
  show ?case
  proof (cases "c = sep")
    case True
    then show ?thesis using Cons by (auto simp: Let_def)
  next
    case False
    then have "p = c # hd ?parts \<or> p \<in> set (tl ?parts)"
      using Cons.prems by (simp add: Let_def)
    moreover have "hd ?parts \<in> set ?parts" using ne by simp
    moreover have "set (tl ?parts) \<subseteq> set ?parts" using ne by (simp add: list.set_sel(2) subsetI)
    ultimately show ?thesis using Cons.IH False by auto
  qed
qed

lemma imageName_stable:
  "(let parts = strings_Split (registry @ ''/'' @ last (strings_Split img CHR ''/'')) CHR ''/''
    in parts ! (length parts - 1)) = last (strings_Split img CHR ''/'')"
proof -
  let ?name = "last (strings_Split img CHR ''/'')"
  have "?name \<in> set (strings_Split img CHR ''/'')"
    using strings_Split_nonempty by simp
  then have "CHR ''/'' \<notin> set ?name"
    by (rule strings_Split_parts)
  then have "strings_Split ?name CHR ''/'' = [?name]"
    by (rule strings_Split_no_sep)
  then have "strings_Split (registry @ ''/'' @ ?name) CHR ''/'' =
             strings_Split registry CHR ''/'' @ [?name]"
    using strings_Split_append [of registry "CHR ''/''" ?name] by simp
  then show ?thesis
    by (simp add: Let_def nth_append)
qed

lemma applyPrivateRegistryToContainer_idem:
  assumes "applyPrivateRegistryToContainer registry c = Inr c'"
  shows "applyPrivateRegistryToContainer registry c' = Inr c'"
proof -
  obtain img found where ns: "NestedString c [''image''] = Inr (img, found)"
    using assms by (auto simp: applyPrivateRegistryToContainer_def split: sum.splits)
  let ?name = "last (strings_Split img CHR ''/'')"
  have parts: "strings_Split img CHR ''/'' ! (length (strings_Split img CHR ''/'') - 1) = ?name"
    using strings_Split_nonempty by (simp add: last_conv_nth)
  have c': "c' = c(''image'' \<mapsto> VString (registry @ ''/'' @ ?name))"
    using assms ns parts by (simp add: applyPrivateRegistryToContainer_def Let_def)
  have "NestedString c' [''image''] = Inr (registry @ ''/'' @ ?name, True)"
    by (simp add: c' NestedString_def)
  then show ?thesis
    using imageName_stable [of registry img]
    by (simp add: applyPrivateRegistryToContainer_def Let_def c')
qed

lemma applyImagePullSecret_idem:
  assumes "applyImagePullSecret secret p = Inr p'"
  shows "applyImagePullSecret secret p' = Inr p'"
  using assms by (auto simp: applyImagePullSecret_def SetNestedSlice_def)

lemma is_workload_store_at: "is_workload (store_at o' v path) = is_workload o'"
  by (simp add: is_workload_def store_at_def split: sum.splits)

text \<open>
  What the two accessors of the pod template return, case by case, and that each gives the
  same object and the same error when it runs again on its own result.
\<close>

lemma MutateContainers_shape:
  assumes "MutateContainers o' fn = (e, o'')"
  shows "(e \<noteq> None \<and> o'' = o' \<and>
          (\<forall>cs. NestedFieldNoCopy (VMap (object o')) [''spec'', ''template'', ''spec'', ''containers'']
                  \<noteq> Inr (Some (VList cs)))) \<or>
         (\<exists>cs cs'. NestedFieldNoCopy (VMap (object o')) [''spec'', ''template'', ''spec'', ''containers'']
                      = Inr (Some (VList cs)) \<and>
                    mutate_each fn cs = (e, cs') \<and>
                    o'' = store_at o' (VList cs') [''spec'', ''template'', ''spec'', ''containers''])"
proof (cases "NestedFieldNoCopy (VMap (object o')) [''spec'', ''template'', ''spec'', ''containers'']")
  case (Inl err)
  then show ?thesis using assms by (auto simp: MutateContainers_def)
next
  case (Inr found)
  show ?thesis
  proof (cases found)
    case None
    then show ?thesis using assms Inr by (auto simp: MutateContainers_def)
  next
    case (Some x)
    show ?thesis
    proof (cases x)
      case (VList cs)
      obtain e1 cs' where "mutate_each fn cs = (e1, cs')"
        by (cases "mutate_each fn cs") auto
      then show ?thesis using assms Inr Some VList by (auto simp: MutateContainers_def)
    qed (use assms Inr Some in \<open>auto simp: MutateContainers_def\<close>)
  qed
qed

lemma MutateContainers_run:
  assumes "NestedFieldNoCopy (VMap (object o')) [''spec'', ''template'', ''spec'', ''containers'']
             = Inr (Some (VList cs))"
    and "mutate_each fn cs = (e, cs')"
  shows "MutateContainers o' fn =
           (e, store_at o' (VList cs') [''spec'', ''template'', ''spec'', ''containers''])"
  using assms by (simp add: MutateContainers_def)

lemma MutateContainers_idem:
  assumes fn: "\<And>c c'. fn c = Inr c' \<Longrightarrow> fn c' = Inr c'"
    and run: "MutateContainers o' fn = (e, o'')"
  shows "MutateContainers o'' fn = (e, o'')"
  using MutateContainers_shape [OF run]
proof (elim disjE exE conjE)
  assume "o'' = o'"
  then show ?thesis using run by simp
next
  fix cs cs'
  let ?P = "[''spec'', ''template'', ''spec'', ''containers'']"
  assume rd: "NestedFieldNoCopy (VMap (object o')) ?P = Inr (Some (VList cs))"
    and me: "mutate_each fn cs = (e, cs')"
    and o'': "o'' = store_at o' (VList cs') ?P"
  have rd': "NestedFieldNoCopy (VMap (object o'')) ?P = Inr (Some (VList cs'))"
    unfolding o'' using rd by (rule store_at_found) simp
  have me': "mutate_each fn cs' = (e, cs')"
    using fn me by (rule mutate_each_idem)
  have "store_at o'' (VList cs') ?P = o''"
    using rd' by (rule store_at_same) simp
  then show ?thesis
    using MutateContainers_run [OF rd' me'] by simp
qed

lemma MutatePodSpec_shape:
  assumes "MutatePodSpec o' fn = (e, o'')"
  shows "(e \<noteq> None \<and> o'' = o') \<or>
         (\<exists>ps ps'. NestedFieldNoCopy (VMap (object o')) [''spec'', ''template'', ''spec'']
                      = Inr (Some (VMap ps)) \<and>
                    fn ps = Inr ps' \<and> e = None \<and>
                    o'' = store_at o' (VMap ps') [''spec'', ''template'', ''spec''])"
proof (cases "NestedFieldNoCopy (VMap (object o')) [''spec'', ''template'', ''spec'']")
  case (Inl err)
  then show ?thesis using assms by (auto simp: MutatePodSpec_def)
next
  case (Inr found)
  show ?thesis
  proof (cases found)
    case None
    then show ?thesis using assms Inr by (auto simp: MutatePodSpec_def)
  next
    case (Some x)
    show ?thesis
    proof (cases x)
      case (VMap ps)
      then show ?thesis using assms Inr Some
        by (cases "fn ps") (auto simp: MutatePodSpec_def)
    qed (use assms Inr Some in \<open>auto simp: MutatePodSpec_def\<close>)
  qed
qed

lemma MutatePodSpec_run:
  assumes "NestedFieldNoCopy (VMap (object o')) [''spec'', ''template'', ''spec'']
             = Inr (Some (VMap ps))"
    and "fn ps = Inr ps'"
  shows "MutatePodSpec o' fn = (None, store_at o' (VMap ps') [''spec'', ''template'', ''spec''])"
  using assms by (simp add: MutatePodSpec_def)

lemma MutatePodSpec_idem:
  assumes fn: "\<And>c c'. fn c = Inr c' \<Longrightarrow> fn c' = Inr c'"
    and run: "MutatePodSpec o' fn = (e, o'')"
  shows "MutatePodSpec o'' fn = (e, o'')"
  using MutatePodSpec_shape [OF run]
proof (elim disjE exE conjE)
  assume "o'' = o'"
  then show ?thesis using run by simp
next
  fix ps ps'
  let ?Q = "[''spec'', ''template'', ''spec'']"
  assume rd: "NestedFieldNoCopy (VMap (object o')) ?Q = Inr (Some (VMap ps))"
    and f: "fn ps = Inr ps'" and e: "e = None"
    and o'': "o'' = store_at o' (VMap ps') ?Q"
  have rd': "NestedFieldNoCopy (VMap (object o'')) ?Q = Inr (Some (VMap ps'))"
    unfolding o'' using rd by (rule store_at_found) simp
  have "store_at o'' (VMap ps') ?Q = o''"
    using rd' by (rule store_at_same) simp
  then show ?thesis
    using MutatePodSpec_run [where fn = fn, OF rd' fn [OF f]] e by simp
qed

lemma containers_path:
  "NestedFieldNoCopy v [''spec'', ''template'', ''spec'', ''containers''] =
     (case NestedFieldNoCopy v [''spec'', ''template'', ''spec''] of
        Inl err \<Rightarrow> Inl err
      | Inr None \<Rightarrow> Inr None
      | Inr (Some x) \<Rightarrow> NestedFieldNoCopy x [''containers''])"
  using NestedFieldNoCopy_append [of v "[''spec'', ''template'', ''spec'']" "[''containers'']"]
  by simp

lemma MutateContainers_after_pull_secret:
  assumes stable: "MutateContainers o1 fn = (None, o1)"
    and run: "MutatePodSpec o1 (applyImagePullSecret secret) = (None, o2)"
  shows "MutateContainers o2 fn = (None, o2)"
proof -
  let ?P = "[''spec'', ''template'', ''spec'', ''containers'']"
  let ?Q = "[''spec'', ''template'', ''spec'']"
  obtain cs cs' where rd: "NestedFieldNoCopy (VMap (object o1)) ?P = Inr (Some (VList cs))"
    and me: "mutate_each fn cs = (None, cs')"
    and o1: "o1 = store_at o1 (VList cs') ?P"
    using MutateContainers_shape [OF stable] by auto
  have "NestedFieldNoCopy (VMap (object (store_at o1 (VList cs') ?P))) ?P = Inr (Some (VList cs'))"
    using rd by (rule store_at_found) simp
  then have "cs' = cs"
    using o1 rd by simp
  then have me: "mutate_each fn cs = (None, cs)"
    using me by simp
  obtain ps ps' where rq: "NestedFieldNoCopy (VMap (object o1)) ?Q = Inr (Some (VMap ps))"
    and f: "applyImagePullSecret secret ps = Inr ps'"
    and o2: "o2 = store_at o1 (VMap ps') ?Q"
    using MutatePodSpec_shape [OF run] by auto
  have ps': "ps' ''containers'' = ps ''containers''"
    using f by (auto simp: applyImagePullSecret_def SetNestedSlice_def)
  have "NestedFieldNoCopy (VMap (object o2)) ?Q = Inr (Some (VMap ps'))"
    unfolding o2 using rq by (rule store_at_found) simp
  then have rd2: "NestedFieldNoCopy (VMap (object o2)) ?P = Inr (Some (VList cs))"
    using rd rq ps' by (simp only: containers_path) (simp split: option.splits)
  have "store_at o2 (VList cs) ?P = o2"
    using rd2 by (rule store_at_same) simp
  then show ?thesis
    using MutateContainers_run [OF rd2 me] by simp
qed

lemma is_workload_MutateContainers:
  "MutateContainers o' fn = (e, o'') \<Longrightarrow> is_workload o'' = is_workload o'"
  using MutateContainers_shape [of o' fn e o''] by (auto simp: is_workload_store_at)

lemma is_workload_MutatePodSpec:
  "MutatePodSpec o' fn = (e, o'') \<Longrightarrow> is_workload o'' = is_workload o'"
  using MutatePodSpec_shape [of o' fn e o''] by (auto simp: is_workload_store_at)

lemma MutatePodSpec_error_unchanged:
  "MutatePodSpec o' fn = (Some err, o'') \<Longrightarrow> o'' = o'"
  using MutatePodSpec_shape [of o' fn "Some err" o''] by auto

text \<open>
  The image registry transform on one item, on all items, and on the object set: running it
  again on its own result gives the same result, error included.
\<close>

lemma applyImageRegistry_item_idem:
  assumes run: "applyImageRegistry_item registry secret o' = (e, o'')"
  shows "applyImageRegistry_item registry secret o'' = (e, o'')"
proof (cases "is_workload o'")
  case False
  then show ?thesis using run by (auto simp: applyImageRegistry_item_def)
next
  case True
  let ?fnR = "applyPrivateRegistryToContainer registry"
  let ?fnS = "applyImagePullSecret secret"
  let ?C = "\<lambda>x. if registry \<noteq> [] then MutateContainers x ?fnR else (None, x)"
  let ?S = "\<lambda>x. if secret \<noteq> [] then MutatePodSpec x ?fnS else (None, x)"
  have item: "\<And>x. is_workload x \<Longrightarrow> applyImageRegistry_item registry secret x =
      (case ?C x of (err1, item1) \<Rightarrow>
         (case err1 of
            Some err \<Rightarrow> (Some (ErrorApplyingPrivateRegistry err), item1)
          | None \<Rightarrow>
              (case ?S item1 of (err2, item2) \<Rightarrow>
                 (case err2 of
                    Some err \<Rightarrow> (Some (ErrorApplyingImagePullSecret err), item2)
                  | None \<Rightarrow> (None, item2)))))"
    by (auto simp: applyImageRegistry_item_def Let_def split: prod.splits option.splits)
  obtain e1 o1 where c: "?C o' = (e1, o1)"
    by (cases "?C o'") auto
  have c1: "?C o1 = (e1, o1)"
  proof (cases "registry = []")
    case True
    then show ?thesis using c by auto
  next
    case False
    then have "MutateContainers o' ?fnR = (e1, o1)" using c by simp
    then have "MutateContainers o1 ?fnR = (e1, o1)"
      by (rule MutateContainers_idem [rotated]) (rule applyPrivateRegistryToContainer_idem)
    then show ?thesis using False by simp
  qed
  have w1: "is_workload o1"
    using c True by (auto simp: is_workload_MutateContainers split: if_splits)
  show ?thesis
  proof (cases e1)
    case (Some err)
    then have "e = Some (ErrorApplyingPrivateRegistry err)" "o'' = o1"
      using run c True by (simp_all add: item)
    then show ?thesis using c1 Some w1 by (simp add: item)
  next
    case None
    obtain e2 o2 where p: "?S o1 = (e2, o2)"
      by (cases "?S o1") auto
    show ?thesis
    proof (cases e2)
      case (Some err)
      then have res: "e = Some (ErrorApplyingImagePullSecret err)" "o'' = o2"
        using run c p None True by (simp_all add: item)
      have "o2 = o1"
        using p Some by (auto dest: MutatePodSpec_error_unchanged split: if_splits)
      then show ?thesis using res c1 p None Some w1 by (simp add: item)
    next
      case e2: None
      then have res: "e = None" "o'' = o2"
        using run c p None True by (simp_all add: item)
      have w2: "is_workload o2"
        using p w1 by (auto simp: is_workload_MutatePodSpec split: if_splits)
      have p2: "?S o2 = (None, o2)"
      proof (cases "secret = []")
        case True
        then show ?thesis using p e2 by auto
      next
        case False
        then have "MutatePodSpec o1 ?fnS = (None, o2)" using p e2 by simp
        then have "MutatePodSpec o2 ?fnS = (None, o2)"
          by (rule MutatePodSpec_idem [rotated]) (rule applyImagePullSecret_idem)
        then show ?thesis using False by simp
      qed
      have c2: "?C o2 = (None, o2)"
      proof (cases "registry = []")
        case True
        then show ?thesis by simp
      next
        case r: False
        then have m1: "MutateContainers o1 ?fnR = (None, o1)" using c1 None by simp
        show ?thesis
        proof (cases "secret = []")
          case True
          then have "o2 = o1" using p by simp
          then show ?thesis using m1 r by simp
        next
          case False
          then have "MutatePodSpec o1 ?fnS = (None, o2)" using p e2 by simp
          with m1 have "MutateContainers o2 ?fnR = (None, o2)"
            by (rule MutateContainers_after_pull_secret)
          then show ?thesis using r by simp
        qed
      qed
      show ?thesis using res c2 p2 w2 by (simp add: item)
    qed
  qed
qed

lemma applyImageRegistry_items_idem:
  "applyImageRegistry_items registry secret xs = (e, ys) \<Longrightarrow>
     applyImageRegistry_items registry secret ys = (e, ys)"
proof (induction xs arbitrary: e ys)
  case Nil
  then show ?case by simp
next
  case (Cons x xs)
  obtain ex x' where ix: "applyImageRegistry_item registry secret x = (ex, x')"
    by (cases "applyImageRegistry_item registry secret x") auto
  then have ix': "applyImageRegistry_item registry secret x' = (ex, x')"
    by (rule applyImageRegistry_item_idem)
  show ?case
  proof (cases ex)
    case (Some err)
    then have "e = Some err" "ys = x' # xs"
      using Cons.prems ix by simp_all
    then show ?thesis using ix' Some by simp
  next
    case None
    obtain e' xs' where rest: "applyImageRegistry_items registry secret xs = (e', xs')"
      by (cases "applyImageRegistry_items registry secret xs") auto
    then have res: "e = e'" "ys = x' # xs'"
      using Cons.prems ix None by simp_all
    have "applyImageRegistry_items registry secret xs' = (e', xs')"
      using rest by (rule Cons.IH)
    then show ?thesis using res ix' None by simp
  qed
qed

lemma applyImageRegistry_items_stable_iff:
  "applyImageRegistry_items registry secret xs = (None, xs) \<longleftrightarrow>
     (\<forall>o' \<in> set xs. applyImageRegistry_item registry secret o' = (None, o'))"
proof (induction xs)
  case Nil
  show ?case by simp
next
  case (Cons x xs)
  obtain ex x' where ix: "applyImageRegistry_item registry secret x = (ex, x')"
    by (cases "applyImageRegistry_item registry secret x") auto
  obtain e' xs' where rest: "applyImageRegistry_items registry secret xs = (e', xs')"
    by (cases "applyImageRegistry_items registry secret xs") auto
  show ?case
    using ix rest Cons.IH by (cases ex) auto
qed

lemma applyImageRegistry_idem:
  assumes "applyImageRegistry instance m registry secret = (e, m')"
  shows "applyImageRegistry instance m' registry secret = (e, m')"
proof (cases "registry = [] \<and> secret = []")
  case True
  then show ?thesis using assms by (simp add: applyImageRegistry_def)
next
  case False
  obtain items' where it: "applyImageRegistry_items registry secret (Items m) = (e, items')"
    and m': "m' = m\<lparr>Items := items'\<rparr>"
    using assms False by (auto simp: applyImageRegistry_def split: prod.splits)
  have "applyImageRegistry_items registry secret items' = (e, items')"
    using it by (rule applyImageRegistry_items_idem)
  then show ?thesis using False m' by (auto simp: applyImageRegistry_def)
qed

text \<open>
  An object set the image registry transform leaves alone is still left alone after one of
  its items is replaced by an object that is not a workload.
\<close>

lemma applyImageRegistry_stable_update:
  assumes stable: "applyImageRegistry instance m registry secret = (None, m)"
    and a: "\<not> is_workload a"
  shows "applyImageRegistry instance (m\<lparr>Items := (Items m)[i := a]\<rparr>) registry secret =
           (None, m\<lparr>Items := (Items m)[i := a]\<rparr>)"
proof (cases "registry = [] \<and> secret = []")
  case True
  then show ?thesis by (simp add: applyImageRegistry_def)
next
  case False
  obtain items' where it: "applyImageRegistry_items registry secret (Items m) = (None, items')"
    and m': "m = m\<lparr>Items := items'\<rparr>"
    using stable False by (auto simp: applyImageRegistry_def split: prod.splits)
  have "Items (m\<lparr>Items := items'\<rparr>) = items'" by simp
  then have "items' = Items m" using m' by simp
  then have "\<forall>o' \<in> set (Items m). applyImageRegistry_item registry secret o' = (None, o')"
    using it by (simp add: applyImageRegistry_items_stable_iff)
  moreover have "applyImageRegistry_item registry secret a = (None, a)"
    using a by (simp add: applyImageRegistry_item_def)
  moreover have "set ((Items m)[i := a]) \<subseteq> insert a (set (Items m))"
    by (rule set_update_subset_insert)
  ultimately have "\<forall>o' \<in> set ((Items m)[i := a]).
      applyImageRegistry_item registry secret o' = (None, o')"
    by auto
  then have "applyImageRegistry_items registry secret ((Items m)[i := a]) = (None, (Items m)[i := a])"
    by (simp add: applyImageRegistry_items_stable_iff)
  then show ?thesis using False by (auto simp: applyImageRegistry_def)
qed

lemma store_at_fields [simp]:
  "Group (store_at b v p) = Group b"
  "Version (store_at b v p) = Version b"
  "Kind (store_at b v p) = Kind b"
  "Namespace (store_at b v p) = Namespace b"
  "Name (store_at b v p) = Name b"
  by (simp_all add: store_at_def split: sum.splits)

text \<open>
  The writes of the two application transforms, as operations on one object: each pair of
  writes does nothing when repeated, and the two pairs can change places.
\<close>

lemma writes_selector_idem:
  "store_at (store_at (store_at (store_at b v1 [''spec'', ''selector''])
                         v2 [''spec'', ''componentGroupKinds''])
               v1 [''spec'', ''selector''])
     v2 [''spec'', ''componentGroupKinds''] =
   store_at (store_at b v1 [''spec'', ''selector'']) v2 [''spec'', ''componentGroupKinds'']"
proof (rule Object.equality)
  let ?b' = "store_at (store_at b v1 [''spec'', ''selector'']) v2 [''spec'', ''componentGroupKinds'']"
  show "object (store_at (store_at ?b' v1 [''spec'', ''selector''])
     v2 [''spec'', ''componentGroupKinds'']) = object ?b'"
  proof (cases "object b ''spec''")
    case None
    then show ?thesis
      by (simp add: store_selector_and_kinds [of ?b'] store_selector_and_kinds [of b])
  next
    case (Some x)
    then show ?thesis
      by (cases x)
         (simp_all add: store_selector_and_kinds [of ?b'] store_selector_and_kinds [of b])
  qed
qed simp_all

lemma writes_status_idem:
  "store_at (store_at (store_at (store_at b v1 [''spec'', ''descriptor'', ''version''])
                         v2 [''spec'', ''assemblyPhase''])
               v1 [''spec'', ''descriptor'', ''version''])
     v2 [''spec'', ''assemblyPhase''] =
   store_at (store_at b v1 [''spec'', ''descriptor'', ''version'']) v2 [''spec'', ''assemblyPhase'']"
proof (rule Object.equality)
  let ?b' = "store_at (store_at b v1 [''spec'', ''descriptor'', ''version''])
               v2 [''spec'', ''assemblyPhase'']"
  show "object (store_at (store_at ?b' v1 [''spec'', ''descriptor'', ''version''])
     v2 [''spec'', ''assemblyPhase'']) = object ?b'"
  proof (cases "object b ''spec''")
    case None
    then show ?thesis
      by (simp add: store_twice [of ?b'] store_twice [of b])
  next
    case (Some x)
    show ?thesis
    proof (cases x)
      case (VMap sub)
      show ?thesis
      proof (cases "sub ''descriptor''")
        case None
        then show ?thesis using Some VMap
          by (simp add: store_twice [of ?b'] store_twice [of b])
      next
        case d: (Some y)
        then show ?thesis using Some VMap
          by (cases y) (simp_all add: store_twice [of ?b'] store_twice [of b])
      qed
    qed (use Some in \<open>simp_all add: store_twice [of ?b'] store_twice [of b]\<close>)
  qed
qed simp_all

lemma writes_commute:
  "store_at (store_at (store_at (store_at b v3 [''spec'', ''descriptor'', ''version''])
                         v4 [''spec'', ''assemblyPhase''])
               v1 [''spec'', ''selector''])
     v2 [''spec'', ''componentGroupKinds''] =
   store_at (store_at (store_at (store_at b v1 [''spec'', ''selector''])
                         v2 [''spec'', ''componentGroupKinds''])
               v3 [''spec'', ''descriptor'', ''version''])
     v4 [''spec'', ''assemblyPhase'']"
proof (rule Object.equality)
  let ?s = "store_at (store_at b v3 [''spec'', ''descriptor'', ''version''])
              v4 [''spec'', ''assemblyPhase'']"
  let ?k = "store_at (store_at b v1 [''spec'', ''selector''])
              v2 [''spec'', ''componentGroupKinds'']"
  show "object (store_at (store_at ?s v1 [''spec'', ''selector''])
          v2 [''spec'', ''componentGroupKinds'']) =
        object (store_at (store_at ?k v3 [''spec'', ''descriptor'', ''version''])
          v4 [''spec'', ''assemblyPhase''])"
  proof (cases "object b ''spec''")
    case None
    then show ?thesis
      by (simp add: store_selector_and_kinds [of ?s] store_twice [of b]
          store_twice [of ?k] store_selector_and_kinds [of b])
         (auto simp: fun_eq_iff)
  next
    case (Some x)
    show ?thesis
    proof (cases x)
      case (VMap sub)
      show ?thesis
      proof (cases "sub ''descriptor''")
        case None
        then show ?thesis using Some VMap
          by (simp add: store_selector_and_kinds [of ?s] store_twice [of b]
              store_twice [of ?k] store_selector_and_kinds [of b])
             (auto simp: fun_eq_iff)
      next
        case d: (Some y)
        then show ?thesis using Some VMap
          by (cases y)
             (auto simp: store_selector_and_kinds [of ?s] store_twice [of b]
              store_twice [of ?k] store_selector_and_kinds [of b] fun_eq_iff)
      qed
    qed (use Some in \<open>simp_all add: store_selector_and_kinds [of ?s] store_twice [of b]
              store_twice [of ?k] store_selector_and_kinds [of b]\<close>)
  qed
qed simp_all

text \<open>
  The search for the Application looks at group and kind only, and finds an Application
  where it says it does.
\<close>

lemma locateApplication_update:
  "i < length xs \<Longrightarrow> is_application a' = is_application (xs ! i) \<Longrightarrow>
     locateApplication (xs[i := a']) k p = locateApplication xs k p"
proof (induction xs arbitrary: i k p)
  case Nil
  then show ?case by simp
next
  case (Cons x xs)
  show ?case
  proof (cases i)
    case 0
    then show ?thesis using Cons.prems
      by (simp add: locateApplication_Cons del: locateApplication.simps(2))
  next
    case (Suc i')
    then show ?thesis using Cons.prems Cons.IH [of i']
      by (simp add: locateApplication_Cons del: locateApplication.simps(2))
  qed
qed

lemma locateApplication_Some:
  "locateApplication xs k p = Located (Some j) \<Longrightarrow>
     p = Some j \<or> (p = None \<and> (\<exists>i < length xs. j = k + i \<and> is_application (xs ! i)))"
proof (induction xs arbitrary: k p)
  case Nil
  then show ?case by simp
next
  case (Cons x xs)
  show ?case
  proof (cases "is_application x")
    case True
    show ?thesis
    proof (cases p)
      case None
      then have "locateApplication xs (Suc k) (Some k) = Located (Some j)"
        using Cons.prems True
        by (simp add: locateApplication_Cons del: locateApplication.simps(2))
      then have "j = k"
        using Cons.IH [of "Suc k" "Some k"] by auto
      then show ?thesis using None True by auto
    next
      case (Some q)
      then show ?thesis using Cons.prems True
        by (simp add: locateApplication_Cons del: locateApplication.simps(2))
    qed
  next
    case False
    then have "locateApplication xs (Suc k) p = Located (Some j)"
      using Cons.prems by (simp add: locateApplication_Cons del: locateApplication.simps(2))
    then have "p = Some j \<or> (p = None \<and> (\<exists>i < length xs. j = Suc k + i \<and> is_application (xs ! i)))"
      by (rule Cons.IH)
    then show ?thesis
    proof
      assume "p = Some j"
      then show ?thesis by simp
    next
      assume "p = None \<and> (\<exists>i<length xs. j = Suc k + i \<and> is_application (xs ! i))"
      then obtain i where "p = None" "i < length xs" "j = Suc k + i" "is_application (xs ! i)"
        by auto
      then have "Suc i < length (x # xs) \<and> j = k + Suc i \<and> is_application ((x # xs) ! Suc i)"
        by simp
      then show ?thesis using \<open>p = None\<close> by blast
    qed
  qed
qed

lemma is_application_not_workload: "is_application a \<Longrightarrow> \<not> is_workload a"
  by (simp add: is_application_def is_workload_def)

lemma uniqueGroupVersionKind_update:
  assumes "i < length (Items m)"
    and "obj_GroupVersionKind a' = obj_GroupVersionKind (Items m ! i)"
  shows "uniqueGroupVersionKind rng (m\<lparr>Items := (Items m)[i := a']\<rparr>) = uniqueGroupVersionKind rng m"
proof -
  have "(map obj_GroupVersionKind (Items m))[i := obj_GroupVersionKind (Items m ! i)] =
        map obj_GroupVersionKind (Items m)"
    using assms(1) by (metis list_update_id nth_map)
  then show ?thesis
    using assms(2) by (simp add: uniqueGroupVersionKind_map map_update)
qed

lemma transformApplication_update:
  assumes loc: "locateApplication (Items y) 0 None = Located (Some i)"
    and i: "i < length (Items y)"
    and app: "is_application a' = is_application (Items y ! i)"
    and gvk: "obj_GroupVersionKind a' = obj_GroupVersionKind (Items y ! i)"
  shows "transformApplication rng instance (y\<lparr>Items := (Items y)[i := a']\<rparr>) labelMaker =
     (None, y\<lparr>Items := (Items y)
        [i := store_at (store_at a' (VLabelSelector (labelMaker instance)) [''spec'', ''selector''])
                (VGroupVersionKinds (uniqueGroupVersionKind rng y))
                [''spec'', ''componentGroupKinds'']]\<rparr>)"
proof -
  let ?y' = "y\<lparr>Items := (Items y)[i := a']\<rparr>"
  have loc': "locateApplication (Items ?y') 0 None = Located (Some i)"
    using loc locateApplication_update [OF i app] by simp
  have i': "i < length (Items ?y')" using i by simp
  have u: "uniqueGroupVersionKind rng ?y' = uniqueGroupVersionKind rng y"
    using i gvk by (rule uniqueGroupVersionKind_update)
  show ?thesis
    using transformApplication_located [OF loc' i', of rng "instance" labelMaker] i
    by (simp add: u)
qed

lemma TransformApplicationFromStatus_update:
  assumes addon: "asCommonObject instance = Some addon"
    and loc: "locateApplication (Items y) 0 None = Located (Some i)"
    and i: "i < length (Items y)"
    and app: "is_application a' = is_application (Items y ! i)"
  shows "TransformApplicationFromStatus instance (y\<lparr>Items := (Items y)[i := a']\<rparr>) =
     (None, y\<lparr>Items := (Items y)
        [i := store_at (store_at a' (VString (specVersion (CommonSpec addon)))
                          [''spec'', ''descriptor'', ''version''])
                (VString (if Healthy (GetCommonStatus addon) then Succeeded else Pending))
                [''spec'', ''assemblyPhase'']]\<rparr>)"
proof -
  let ?y' = "y\<lparr>Items := (Items y)[i := a']\<rparr>"
  have loc': "locateApplication (Items ?y') 0 None = Located (Some i)"
    using loc locateApplication_update [OF i app] by simp
  show ?thesis
    using TransformApplicationFromStatus_located [OF addon loc'] i by simp
qed

lemma applyObjectTransforms_builtin:
  "applyObjectTransforms (builtinObjectTransforms rng registry secret labelMaker) instance x =
     (case applyImageRegistry instance x registry secret of
        (Some err, y) \<Rightarrow> (Some err, y)
      | (None, y) \<Rightarrow>
          (case transformApplication rng instance y labelMaker of
             (Some err, z) \<Rightarrow> (Some err, z)
           | (None, z) \<Rightarrow> TransformApplicationFromStatus instance z))"
  by (auto simp: builtinObjectTransforms_def withImageRegistryTransform_def
      split: prod.splits option.splits)

text \<open>
  When both runs range over the map of kinds in the same order, a second run of the object
  transforms on the result of the first returns that result again, with the same error if
  the first run stopped at one. This holds for every object set, owner, registry, pull
  secret and label maker.
\<close>

lemma object_transforms_idempotent_in_one_order:
  "applyObjectTransforms (builtinObjectTransforms rng registry secret labelMaker) instance
     (snd (applyObjectTransforms (builtinObjectTransforms rng registry secret labelMaker)
             instance objects)) =
   applyObjectTransforms (builtinObjectTransforms rng registry secret labelMaker) instance objects"
proof -
  let ?f = "applyObjectTransforms (builtinObjectTransforms rng registry secret labelMaker) instance"
  let ?T1 = "\<lambda>x. applyImageRegistry instance x registry secret"
  let ?T2 = "\<lambda>x. transformApplication rng instance x labelMaker"
  let ?T3 = "TransformApplicationFromStatus instance"
  obtain e1 y where t1: "?T1 objects = (e1, y)"
    by (cases "?T1 objects") auto
  then have t1y: "?T1 y = (e1, y)"
    by (rule applyImageRegistry_idem)
  show ?thesis
  proof (cases e1)
    case (Some err)
    have "?f objects = (Some err, y)"
      using t1 Some by (simp add: applyObjectTransforms_builtin)
    moreover have "?f y = (Some err, y)"
      using t1y Some by (simp add: applyObjectTransforms_builtin)
    ultimately show ?thesis by simp
  next
    case None
    have stable: "?T1 y = (None, y)"
      using t1y None by simp
    show ?thesis
    proof (cases "\<exists>i. locateApplication (Items y) 0 None = Located (Some i)")
      case False
      then have t2: "?T2 y = (None, y)"
        by (auto simp: transformApplication_def split: app_search.splits option.splits)
      have "snd (?T3 y) = y"
        using False
        by (auto simp: TransformApplicationFromStatus_def split: app_search.splits option.splits)
      then obtain r where t3: "?T3 y = (r, y)"
        by (cases "?T3 y") auto
      have "?f objects = (r, y)"
        using t1 None t2 t3 by (simp add: applyObjectTransforms_builtin)
      moreover have "?f y = (r, y)"
        using stable t2 t3 by (simp add: applyObjectTransforms_builtin)
      ultimately show ?thesis by simp
    next
      case True
      then obtain i where loc: "locateApplication (Items y) 0 None = Located (Some i)"
        by blast
      then have i: "i < length (Items y)" and app: "is_application (Items y ! i)"
        using locateApplication_Some [OF loc] by auto
      let ?a = "Items y ! i"
      let ?S = "VLabelSelector (labelMaker instance)"
      let ?K = "VGroupVersionKinds (uniqueGroupVersionKind rng y)"
      let ?W2 = "\<lambda>b. store_at (store_at b ?S [''spec'', ''selector''])
                          ?K [''spec'', ''componentGroupKinds'']"
      let ?z = "y\<lparr>Items := (Items y)[i := ?W2 ?a]\<rparr>"
      have yy: "y\<lparr>Items := (Items y)[i := ?a]\<rparr> = y"
        by simp
      have t2: "?T2 y = (None, ?z)"
        using transformApplication_update [OF loc i, of ?a rng "instance" labelMaker] yy
        by simp
      have nw: "\<And>b. is_application b \<Longrightarrow> \<not> is_workload (?W2 b)"
        by (simp add: is_workload_store_at is_application_not_workload)
      have t1z: "?T1 ?z = (None, ?z)"
        using stable nw [OF app] by (rule applyImageRegistry_stable_update)
      have t2z: "?T2 ?z = (None, ?z)"
        using transformApplication_update [OF loc i, of "?W2 ?a" rng "instance" labelMaker]
        by (simp add: is_application_store_at obj_GroupVersionKind_store_at writes_selector_idem)
      show ?thesis
      proof (cases "asCommonObject instance")
        case None
        have t3: "\<And>x. ?T3 x = (Some NotCommonObject, x)"
          using None by (simp add: TransformApplicationFromStatus_def)
        have "?f objects = (Some NotCommonObject, ?z)"
          using t1 \<open>e1 = None\<close> t2 t3 by (simp add: applyObjectTransforms_builtin)
        moreover have "?f ?z = (Some NotCommonObject, ?z)"
          using t1z t2z t3 by (simp add: applyObjectTransforms_builtin)
        ultimately show ?thesis by simp
      next
        case (Some addon)
        let ?V = "VString (specVersion (CommonSpec addon))"
        let ?P = "VString (if Healthy (GetCommonStatus addon) then Succeeded else Pending)"
        let ?W3 = "\<lambda>b. store_at (store_at b ?V [''spec'', ''descriptor'', ''version''])
                            ?P [''spec'', ''assemblyPhase'']"
        let ?u = "y\<lparr>Items := (Items y)[i := ?W3 (?W2 ?a)]\<rparr>"
        have t3z: "?T3 ?z = (None, ?u)"
          using TransformApplicationFromStatus_update [OF Some loc i, of "?W2 ?a"]
          by (simp add: is_application_store_at)
        have "\<not> is_workload (?W3 (?W2 ?a))"
          using app by (simp add: is_workload_store_at is_application_not_workload)
        with stable have t1u: "?T1 ?u = (None, ?u)"
          by (rule applyImageRegistry_stable_update)
        have "?W2 (?W3 (?W2 ?a)) = ?W3 (?W2 (?W2 ?a))"
          by (rule writes_commute)
        also have "\<dots> = ?W3 (?W2 ?a)"
          by (simp only: writes_selector_idem)
        finally have w2: "?W2 (?W3 (?W2 ?a)) = ?W3 (?W2 ?a)" .
        have t2u: "?T2 ?u = (None, ?u)"
          using transformApplication_update [OF loc i, of "?W3 (?W2 ?a)" rng "instance" labelMaker]
          by (simp only: w2) (simp add: is_application_store_at obj_GroupVersionKind_store_at)
        have w3: "?W3 (?W3 (?W2 ?a)) = ?W3 (?W2 ?a)"
          by (rule writes_status_idem)
        have t3u: "?T3 ?u = (None, ?u)"
          using TransformApplicationFromStatus_update [OF Some loc i, of "?W3 (?W2 ?a)"]
          by (simp only: w3) (simp add: is_application_store_at)
        have "?f objects = (None, ?u)"
          using t1 \<open>e1 = None\<close> t2 t3z by (simp add: applyObjectTransforms_builtin)
        moreover have "?f ?u = (None, ?u)"
          using t1u t2u t3u by (simp add: applyObjectTransforms_builtin)
        ultimately show ?thesis by simp
      qed
    qed
  qed
qed

text \<open>
  Claim C8, evaluated on a set of one Application and one Service, with no registry and no
  pull secret. Both runs of the object transforms succeed. The first ranges over the map of
  kinds in one order, the second in the other, and the second run leaves a different
  \<open>spec.componentGroupKinds\<close> in the Application than the first one did.
\<close>

theorem object_transforms_second_run_differs:
  "(let once = applyObjectTransforms (builtinObjectTransforms (\<lambda>ks. ks) [] [] example_labels)
                 healthy_owner app_and_service;
        twice = applyObjectTransforms (builtinObjectTransforms rev [] [] example_labels)
                  healthy_owner (snd once)
    in fst once = None \<and> fst twice = None \<and>
       NestedFieldNoCopy (VMap (object (Items (snd once) ! 0))) [''spec'', ''componentGroupKinds''] =
         Inr (Some (VGroupVersionKinds [application_gvk, service_gvk])) \<and>
       NestedFieldNoCopy (VMap (object (Items (snd twice) ! 0))) [''spec'', ''componentGroupKinds''] =
         Inr (Some (VGroupVersionKinds [service_gvk, application_gvk])) \<and>
       snd twice \<noteq> snd once)"
proof -
  let ?once = "applyObjectTransforms (builtinObjectTransforms (\<lambda>ks. ks) [] [] example_labels)
                 healthy_owner app_and_service"
  let ?twice = "applyObjectTransforms (builtinObjectTransforms rev [] [] example_labels)
                  healthy_owner (snd ?once)"
  have e1: "fst ?once = None"
    and o1: "NestedFieldNoCopy (VMap (object (Items (snd ?once) ! 0))) [''spec'', ''componentGroupKinds'']
          = Inr (Some (VGroupVersionKinds [application_gvk, service_gvk]))"
    by (simp_all add: builtinObjectTransforms_def withImageRegistryTransform_def
        applyImageRegistry_def transformApplication_def TransformApplicationFromStatus_def
        SetNestedFieldNoCopy_def SetNestedField_def Let_def
        uniqueGroupVersionKind_def sort_Slice_def app_and_service_def healthy_owner_def
        bare_object_def obj_GroupVersionKind_def map_put_def
        application_gvk_def service_gvk_def)
  have e2: "fst ?twice = None"
    and o2: "NestedFieldNoCopy (VMap (object (Items (snd ?twice) ! 0))) [''spec'', ''componentGroupKinds'']
          = Inr (Some (VGroupVersionKinds [service_gvk, application_gvk]))"
    by (simp_all add: builtinObjectTransforms_def withImageRegistryTransform_def
        applyImageRegistry_def transformApplication_def TransformApplicationFromStatus_def
        SetNestedFieldNoCopy_def SetNestedField_def Let_def
        uniqueGroupVersionKind_def sort_Slice_def app_and_service_def healthy_owner_def
        bare_object_def obj_GroupVersionKind_def map_put_def
        application_gvk_def service_gvk_def)
  have "[application_gvk, service_gvk] \<noteq> [service_gvk, application_gvk]"
    by (simp add: application_gvk_def service_gvk_def)
  then have "snd ?twice \<noteq> snd ?once"
    using o1 o2 by auto
  then show ?thesis
    unfolding Let_def using e1 e2 o1 o2 by blast
qed

end
